theory Spec2Isabelle
  imports Complex_Main "HOL-Library.Log_Nat"
begin

section \<open>Values of type double\<close>

text \<open>
  A C++ \<open>double\<close> is one of: a finite number, plus or minus infinity, or NaN.
  A finite double is represented by the real number it denotes. The ordered
  comparisons \<open><\<close>, \<open><=\<close> and \<open>>\<close> of IEEE 754 are exact on these values:
  every comparison with a NaN operand is false, minus infinity is below and plus
  infinity is above every finite number. The sign of zero does not influence a
  comparison and is not represented.
\<close>

datatype double = Finite real | PosInf | NegInf | NaN

fun dless :: "double \<Rightarrow> double \<Rightarrow> bool" where
  "dless NaN y = False"
| "dless x NaN = False"
| "dless (Finite a) (Finite b) = (a < b)"
| "dless (Finite a) PosInf = True"
| "dless (Finite a) NegInf = False"
| "dless PosInf y = False"
| "dless NegInf (Finite b) = True"
| "dless NegInf PosInf = True"
| "dless NegInf NegInf = False"

fun dle :: "double \<Rightarrow> double \<Rightarrow> bool" where
  "dle NaN y = False"
| "dle x NaN = False"
| "dle (Finite a) (Finite b) = (a \<le> b)"
| "dle (Finite a) PosInf = True"
| "dle (Finite a) NegInf = False"
| "dle PosInf PosInf = True"
| "dle PosInf y = False"
| "dle NegInf y = True"

definition dgreater :: "double \<Rightarrow> double \<Rightarrow> bool" where
  "dgreater x y = dless y x"

section \<open>Rounding to double\<close>

text \<open>
  The finite doubles are the numbers \<open>m * 2^j / 2^1074\<close> with a mantissa
  \<open>m\<close> of at most 53 bits and magnitude below \<open>2^1024\<close>. Every arithmetic
  operation of IEEE 754 returns the exact result rounded to the nearest double,
  a tie going to the double with the even mantissa. \<open>round_magnitude a\<close> rounds
  a magnitude \<open>a\<close>: \<open>a * 2^1074\<close> is the magnitude in units of the smallest
  subnormal number, \<open>j\<close> the number of bits by which it exceeds 53 bits, so
  that \<open>2^j\<close> of these units is the spacing of the doubles around \<open>a\<close>, and
  \<open>m\<close> the mantissa. A rounded magnitude of \<open>2^1024\<close> or more overflows to
  an infinity; a magnitude that rounds to zero underflows to zero. The
  constructor \<open>Finite\<close> takes any real number; the results of the arithmetic
  below are doubles.
\<close>

definition round_half_even :: "real \<Rightarrow> int" where
  "round_half_even x =
     (let f = \<lfloor>x\<rfloor>; d = x - of_int f
      in if d < 1 / 2 then f else if 1 / 2 < d then f + 1 else if even f then f else f + 1)"

definition round_magnitude :: "real \<Rightarrow> real" where
  "round_magnitude a =
     (let s = a * 2 ^ 1074;
          j = nat (bitlen \<lfloor>s\<rfloor> - 53);
          m = round_half_even (s / 2 ^ j)
      in of_int m * 2 ^ j / 2 ^ 1074)"

definition round_double :: "real \<Rightarrow> double" where
  "round_double r =
     (let v = round_magnitude \<bar>r\<bar>
      in if 2 ^ 1024 \<le> v then (if 0 < r then PosInf else NegInf)
         else Finite (sgn r * v))"

section \<open>Colours\<close>

text \<open>
  A \<open>QColor\<close> is either built from a colour name such as \<open>#191970\<close>
  (the constructor \<open>QColor(const char *)\<close>) or from one of the predefined
  colours of the enumeration \<open>Qt::GlobalColor\<close> that the program uses.
\<close>

datatype QColor = QColor string
  | Qt_red | Qt_gray | Qt_blue | Qt_darkGreen | Qt_darkYellow | Qt_magenta

section \<open>The background colour of a temperature: \<open>fon\<close>\<close>

text \<open>
  The ordered dispatch of \<open>fon\<close>; the integer literals of the source are
  converted to double by the comparison.
\<close>

definition fon :: "double \<Rightarrow> QColor" where
  "fon temp_c =
     (if dless temp_c (Finite (- 20)) then QColor ''#191970''
      else if dle temp_c (Finite (- 10)) then QColor ''#4682B4''
      else if dle temp_c (Finite (- 5)) then QColor ''#B0E0E6''
      else if dle temp_c (Finite 0) then QColor ''#E0FFFF''
      else if dle temp_c (Finite 10) then QColor ''#FFE4B5''
      else if dle temp_c (Finite 15) then QColor ''#DEB887''
      else if dless temp_c (Finite 21) then QColor ''#DAA520''
      else if dless temp_c (Finite 26) then QColor ''#FF8C00''
      else QColor ''#B22222'')"

text \<open>
  The palette, band by band, from the coldest (band 0) to the hottest (band 8).
\<close>

definition palette :: "nat \<Rightarrow> QColor" where
  "palette i =
     (if i = 0 then QColor ''#191970''
      else if i = 1 then QColor ''#4682B4''
      else if i = 2 then QColor ''#B0E0E6''
      else if i = 3 then QColor ''#E0FFFF''
      else if i = 4 then QColor ''#FFE4B5''
      else if i = 5 then QColor ''#DEB887''
      else if i = 6 then QColor ''#DAA520''
      else if i = 7 then QColor ''#FF8C00''
      else QColor ''#B22222'')"

text \<open>
  The nine bands in the words of the specification:
  \<open>< -20\<close>, \<open>[-20,-10]\<close>, \<open>(-10,-5]\<close>, \<open>(-5,0]\<close>, \<open>(0,10]\<close>, \<open>(10,15]\<close>,
  \<open>[15,21)\<close>, \<open>[21,26)\<close>, \<open>>= 26\<close>.
\<close>

definition spec_band :: "nat \<Rightarrow> real \<Rightarrow> bool" where
  "spec_band i t =
     (if i = 0 then t < - 20
      else if i = 1 then - 20 \<le> t \<and> t \<le> - 10
      else if i = 2 then - 10 < t \<and> t \<le> - 5
      else if i = 3 then - 5 < t \<and> t \<le> 0
      else if i = 4 then 0 < t \<and> t \<le> 10
      else if i = 5 then 10 < t \<and> t \<le> 15
      else if i = 6 then 15 \<le> t \<and> t < 21
      else if i = 7 then 21 \<le> t \<and> t < 26
      else if i = 8 then 26 \<le> t
      else False)"

text \<open>
  The nine bands that the dispatch of \<open>fon\<close> separates: as above, but the
  seventh band is open at 15, which belongs to the sixth.
\<close>

definition fon_band :: "nat \<Rightarrow> real \<Rightarrow> bool" where
  "fon_band i t =
     (if i = 0 then t < - 20
      else if i = 1 then - 20 \<le> t \<and> t \<le> - 10
      else if i = 2 then - 10 < t \<and> t \<le> - 5
      else if i = 3 then - 5 < t \<and> t \<le> 0
      else if i = 4 then 0 < t \<and> t \<le> 10
      else if i = 5 then 10 < t \<and> t \<le> 15
      else if i = 6 then 15 < t \<and> t < 21
      else if i = 7 then 21 \<le> t \<and> t < 26
      else if i = 8 then 26 \<le> t
      else False)"

text \<open>The number of the band that \<open>fon\<close> selects for a finite temperature.\<close>

definition band_of :: "real \<Rightarrow> nat" where
  "band_of t =
     (if t < - 20 then 0 else if t \<le> - 10 then 1 else if t \<le> - 5 then 2
      else if t \<le> 0 then 3 else if t \<le> 10 then 4 else if t \<le> 15 then 5
      else if t < 21 then 6 else if t < 26 then 7 else 8)"

section \<open>JSON values\<close>

text \<open>
  The tree that \<open>QJsonDocument::fromJson\<close> hands over. A \<open>QJsonValue\<close> has one
  of the seven types of \<open>QJsonValue::Type\<close>; an object is a list of
  key/value pairs in which a key is looked up from the front. A document is null
  (nothing parsed, or a parse error) or holds an array or an object at the top
  level.
\<close>

datatype QJsonValue =
    JNull
  | JBool bool
  | JDouble double
  | JString string
  | JArray "QJsonValue list"
  | JObject "(string \<times> QJsonValue) list"
  | JUndefined

type_synonym QJsonArray = "QJsonValue list"
type_synonym QJsonObject = "(string \<times> QJsonValue) list"

datatype QJsonDocument =
    NullDocument
  | ArrayDocument QJsonArray
  | ObjectDocument QJsonObject

text \<open>\<open>QJsonDocument::object()\<close>: the empty object unless the document holds an object.\<close>

definition doc_object :: "QJsonDocument \<Rightarrow> QJsonObject" where
  "doc_object doc = (case doc of ObjectDocument ob \<Rightarrow> ob | _ \<Rightarrow> [])"

text \<open>\<open>QJsonObject::operator[]\<close>: the value of a key, \<open>Undefined\<close> for a missing key.\<close>

definition at_key :: "QJsonObject \<Rightarrow> string \<Rightarrow> QJsonValue" where
  "at_key ob k = (case map_of ob k of Some v \<Rightarrow> v | None \<Rightarrow> JUndefined)"

definition contains :: "QJsonObject \<Rightarrow> string \<Rightarrow> bool" where
  "contains ob k = (map_of ob k \<noteq> None)"

text \<open>
  The conversions of \<open>QJsonValue\<close>: each returns its default (the empty array,
  the empty object, the empty string, 0) when the value has another type.
\<close>

definition toArray :: "QJsonValue \<Rightarrow> QJsonArray" where
  "toArray v = (case v of JArray a \<Rightarrow> a | _ \<Rightarrow> [])"

definition toObject :: "QJsonValue \<Rightarrow> QJsonObject" where
  "toObject v = (case v of JObject ob \<Rightarrow> ob | _ \<Rightarrow> [])"

definition toString :: "QJsonValue \<Rightarrow> string" where
  "toString v = (case v of JString s \<Rightarrow> s | _ \<Rightarrow> [])"

definition toDouble :: "QJsonValue \<Rightarrow> double" where
  "toDouble v = (case v of JDouble d \<Rightarrow> d | _ \<Rightarrow> Finite 0)"

section \<open>Timestamps read from text\<close>

text \<open>
  A \<open>QDateTime\<close> read by \<open>QDateTime::fromString\<close> is invalid or carries the
  calendar fields that were read. The function below is the library's parser for
  the one layout the program uses, \<open>yyyy-MM-dd HH:mm:ss\<close>: four digits of the
  year, two of the month, two of the day, a space, and two digits each for hour,
  minute and second, all within the ranges of the calendar. The time zone of
  the machine, in which the library reads the text, is not represented.
\<close>

datatype QDateTime = InvalidDateTime | DateTime nat nat nat nat nat nat

definition is_digit :: "char \<Rightarrow> bool" where
  "is_digit c = (48 \<le> (of_char c :: nat) \<and> (of_char c :: nat) \<le> 57)"

definition digits_value :: "string \<Rightarrow> nat option" where
  "digits_value cs =
     (if cs \<noteq> [] \<and> list_all is_digit cs
      then Some (foldl (\<lambda>n c. 10 * n + (of_char c - 48)) 0 cs) else None)"

definition is_leap_year :: "nat \<Rightarrow> bool" where
  "is_leap_year y = (y mod 4 = 0 \<and> (y mod 100 \<noteq> 0 \<or> y mod 400 = 0))"

definition days_in_month :: "nat \<Rightarrow> nat \<Rightarrow> nat" where
  "days_in_month y m =
     (if m = 2 then (if is_leap_year y then 29 else 28)
      else if m = 4 \<or> m = 6 \<or> m = 9 \<or> m = 11 then 30 else 31)"

definition QDateTime_fromString :: "string \<Rightarrow> QDateTime" where
  "QDateTime_fromString s =
     (if length s = 19 \<and> s ! 4 = CHR ''-'' \<and> s ! 7 = CHR ''-'' \<and> s ! 10 = CHR '' '' \<and>
         s ! 13 = CHR '':'' \<and> s ! 16 = CHR '':''
      then
        (case (digits_value (take 4 s), digits_value (take 2 (drop 5 s)),
               digits_value (take 2 (drop 8 s)), digits_value (take 2 (drop 11 s)),
               digits_value (take 2 (drop 14 s)), digits_value (take 2 (drop 17 s))) of
           (Some y, Some m, Some d, Some h, Some mi, Some se) \<Rightarrow>
             if 1 \<le> y \<and> 1 \<le> m \<and> m \<le> 12 \<and> 1 \<le> d \<and> d \<le> days_in_month y m \<and>
                h \<le> 23 \<and> mi \<le> 59 \<and> se \<le> 59
             then DateTime y m d h mi se else InvalidDateTime
         | _ \<Rightarrow> InvalidDateTime)
      else InvalidDateTime)"

section \<open>Weather samples and their extraction\<close>

text \<open>
  The function \<open>parseVisualCrossingJson\<close> of the application (the file also
  holds, among its tests, a second copy that takes every hourly entry and does
  not sample).
\<close>

record WeatherPoint =
  datetime :: QDateTime
  temperature :: double
  pressure :: double
  humidity :: double
  windspeed :: double

text \<open>
  The local variable \<open>interval\<close> of \<open>parseVisualCrossingJson\<close>: initialised
  to 1 and overwritten for the five frequencies the function knows.
\<close>

definition freq_interval :: "string \<Rightarrow> nat" where
  "freq_interval freq =
     (if freq = ''1h'' then 1
      else if freq = ''3h'' then 3
      else if freq = ''6h'' then 6
      else if freq = ''12h'' then 12
      else if freq = ''1d'' then 24
      else 1)"

text \<open>The body of the inner loop: the sample built from one hourly entry.\<close>

definition make_point :: "string \<Rightarrow> QJsonValue \<Rightarrow> WeatherPoint" where
  "make_point date hourV =
     (let hour = toObject hourV;
          time = toString (at_key hour ''datetime'')
      in \<lparr> datetime = QDateTime_fromString (date @ '' '' @ time),
           temperature = toDouble (at_key hour ''temp''),
           pressure = toDouble (at_key hour ''pressure''),
           humidity = toDouble (at_key hour ''humidity''),
           windspeed = toDouble (at_key hour ''windspeed'') \<rparr>)"

lemma freq_interval_pos: "0 < freq_interval freq"
  by (simp add: freq_interval_def)

text \<open>
  The inner loop \<open>for (int i = 0; i < hours.size(); i += interval)\<close>, from the
  index \<open>i\<close> on; \<open>result\<close> is the list built so far, and \<open>interval\<close> is
  the value \<open>freq_interval freq\<close>, fixed before the loops and never zero, so the
  loop ends. The subscript \<open>hours[i]\<close> is always in range. The counter is a
  natural number: an array so long that \<open>i += interval\<close> leaves the range of
  \<open>int\<close> is not considered.
\<close>

function hours_loop ::
  "string \<Rightarrow> string \<Rightarrow> QJsonArray \<Rightarrow> nat \<Rightarrow> WeatherPoint list \<Rightarrow> WeatherPoint list" where
  "hours_loop freq date hours i result =
     (if i < length hours
      then hours_loop freq date hours (i + freq_interval freq)
             (result @ [make_point date (hours ! i)])
      else result)"
  by pat_completeness auto
termination
proof (relation "measure (\<lambda>(freq, date, hours, i, result). length hours - i)")
  show "wf (measure (\<lambda>(freq, date, hours, i, result). length hours - i))"
    by simp
next
  fix freq date :: string and hours :: QJsonArray and i :: nat
    and result :: "WeatherPoint list"
  assume "i < length hours"
  with freq_interval_pos [of freq]
  show "((freq, date, hours, i + freq_interval freq, result @ [make_point date (hours ! i)]),
         (freq, date, hours, i, result))
        \<in> measure (\<lambda>(freq, date, hours, i, result). length hours - i)"
    by simp
qed

declare hours_loop.simps [simp del]

text \<open>The outer loop over the array of days.\<close>

fun days_loop :: "string \<Rightarrow> QJsonArray \<Rightarrow> WeatherPoint list \<Rightarrow> WeatherPoint list" where
  "days_loop freq [] result = result"
| "days_loop freq (dayV # days) result =
     (let day = toObject dayV;
          date = toString (at_key day ''datetime'')
      in if \<not> contains day ''hours'' then days_loop freq days result
         else days_loop freq days
                (hours_loop freq date (toArray (at_key day ''hours'')) 0 result))"

definition parseVisualCrossingJson :: "QJsonDocument \<Rightarrow> string \<Rightarrow> WeatherPoint list" where
  "parseVisualCrossingJson doc freq =
     (let obj = doc_object doc;
          days = toArray (at_key obj ''days'')
      in days_loop freq days [])"

section \<open>Source positions of the extracted samples\<close>

text \<open>
  The notions in which the properties of the extraction are stated: the hourly
  entries and the date of a day, the indices \<open>0, k, 2k, \<dots>\<close> below \<open>n\<close>
  that a stride of \<open>k\<close> selects, the positions (day index, hour index) selected
  in an array of days, and the sample built from the entry at a position.
\<close>

definition hour_entries :: "QJsonValue \<Rightarrow> QJsonArray" where
  "hour_entries dayV = toArray (at_key (toObject dayV) ''hours'')"

definition day_date :: "QJsonValue \<Rightarrow> string" where
  "day_date dayV = toString (at_key (toObject dayV) ''datetime'')"

definition stride_indices :: "nat \<Rightarrow> nat \<Rightarrow> nat list" where
  "stride_indices k n = map (\<lambda>j. j * k) [0..<(n + k - 1) div k]"

fun positions_from :: "nat \<Rightarrow> nat \<Rightarrow> QJsonArray \<Rightarrow> (nat \<times> nat) list" where
  "positions_from k d [] = []"
| "positions_from k d (dayV # days) =
     map (Pair d) (stride_indices k (length (hour_entries dayV))) @ positions_from k (Suc d) days"

definition sample_at :: "QJsonArray \<Rightarrow> nat \<times> nat \<Rightarrow> WeatherPoint" where
  "sample_at days p = make_point (day_date (days ! fst p)) (hour_entries (days ! fst p) ! snd p)"


definition doc_days :: "QJsonDocument \<Rightarrow> QJsonArray" where
  "doc_days doc = toArray (at_key (doc_object doc) ''days'')"

definition day_samples :: "nat \<Rightarrow> QJsonValue \<Rightarrow> WeatherPoint list" where
  "day_samples k dayV =
     map (\<lambda>h. make_point (day_date dayV) (hour_entries dayV ! h))
         (stride_indices k (length (hour_entries dayV)))"

definition source_positions :: "QJsonDocument \<Rightarrow> string \<Rightarrow> (nat \<times> nat) list" where
  "source_positions doc freq = positions_from (freq_interval freq) 0 (doc_days doc)"

definition position_less :: "nat \<times> nat \<Rightarrow> nat \<times> nat \<Rightarrow> bool" where
  "position_less p q = (fst p < fst q \<or> (fst p = fst q \<and> snd p < snd q))"

definition total_hourly_entries :: "QJsonDocument \<Rightarrow> nat" where
  "total_hourly_entries doc = sum_list (map (\<lambda>dayV. length (hour_entries dayV)) (doc_days doc))"

section \<open>Example documents\<close>

text \<open>
  The schedule of the test \<open>testJsonParser\<close>: one day with two hourly entries.
  The second document has a day without hourly entries, a day that is no object,
  and a day whose only hourly entry has a time that cannot be read, a
  temperature that is no number, and no pressure and no wind speed.
\<close>

definition test_hour0 :: QJsonValue where
  "test_hour0 = JObject [(''datetime'', JString ''00:00:00''), (''temp'', JDouble (Finite 10)),
     (''pressure'', JDouble (Finite 1010)), (''humidity'', JDouble (Finite 80)),
     (''windspeed'', JDouble (Finite 1.0))]"

definition test_hour1 :: QJsonValue where
  "test_hour1 = JObject [(''datetime'', JString ''01:00:00''), (''temp'', JDouble (Finite 11)),
     (''pressure'', JDouble (Finite 1011)), (''humidity'', JDouble (Finite 81)),
     (''windspeed'', JDouble (Finite 1.1))]"

definition test_schedule :: QJsonDocument where
  "test_schedule = ObjectDocument [(''days'', JArray
     [JObject [(''datetime'', JString ''2023-01-01''), (''hours'', JArray [test_hour0, test_hour1])]])]"

definition irregular_schedule :: QJsonDocument where
  "irregular_schedule = ObjectDocument [(''days'', JArray
     [JObject [(''datetime'', JString ''2023-01-01'')],
      JString ''2023-01-02'',
      JObject [(''datetime'', JString ''2023-01-03''),
               (''hours'', JArray [JObject [(''datetime'', JString ''noon''), (''temp'', JString ''warm''),
                                            (''humidity'', JDouble (Finite 55))]])]])]"

section \<open>Arithmetic on doubles\<close>

text \<open>
  The arithmetic of \<open>plotLineStat\<close>. On finite operands an operation returns
  the real result rounded by \<open>round_double\<close>, each operation on its own (no
  fused multiply-add, no wider intermediate format). Infinities and NaN follow
  IEEE 754: NaN propagates, the difference of equal infinities, zero times an
  infinity, zero divided by zero and the square root of a negative number are
  NaN. The only divisor in the program is the size of a container, so a zero
  divisor is the positive zero.
\<close>

fun dadd :: "double \<Rightarrow> double \<Rightarrow> double" where
  "dadd NaN y = NaN"
| "dadd x NaN = NaN"
| "dadd (Finite a) (Finite b) = round_double (a + b)"
| "dadd PosInf NegInf = NaN"
| "dadd NegInf PosInf = NaN"
| "dadd PosInf y = PosInf"
| "dadd x PosInf = PosInf"
| "dadd NegInf y = NegInf"
| "dadd x NegInf = NegInf"

fun dneg :: "double \<Rightarrow> double" where
  "dneg (Finite a) = Finite (- a)"
| "dneg PosInf = NegInf"
| "dneg NegInf = PosInf"
| "dneg NaN = NaN"

definition dsub :: "double \<Rightarrow> double \<Rightarrow> double" where
  "dsub x y = dadd x (dneg y)"

fun dsign_mul :: "double \<Rightarrow> real \<Rightarrow> double" where
  "dsign_mul x s = (if s = 0 then NaN else if 0 < s then x else dneg x)"

fun dmul :: "double \<Rightarrow> double \<Rightarrow> double" where
  "dmul NaN y = NaN"
| "dmul x NaN = NaN"
| "dmul (Finite a) (Finite b) = round_double (a * b)"
| "dmul (Finite a) y = dsign_mul y a"
| "dmul x (Finite b) = dsign_mul x b"
| "dmul PosInf y = y"
| "dmul NegInf y = dneg y"

fun ddiv :: "double \<Rightarrow> double \<Rightarrow> double" where
  "ddiv NaN y = NaN"
| "ddiv x NaN = NaN"
| "ddiv (Finite a) (Finite b) =
     (if b = 0 then (if a = 0 then NaN else if 0 < a then PosInf else NegInf)
      else round_double (a / b))"
| "ddiv (Finite a) y = Finite 0"
| "ddiv x (Finite b) = (if 0 \<le> b then x else dneg x)"
| "ddiv x y = NaN"

fun dsqrt :: "double \<Rightarrow> double" where
  "dsqrt (Finite a) = (if a < 0 then NaN else round_double (sqrt a))"
| "dsqrt PosInf = PosInf"
| "dsqrt NegInf = NaN"
| "dsqrt NaN = NaN"

text \<open>
  \<open>static_cast<qint64>\<close> of a double truncates towards zero; the behaviour is
  undefined (\<open>None\<close>) when the truncated value is no 64-bit integer.
\<close>

definition to_qint64 :: "double \<Rightarrow> int option" where
  "to_qint64 d =
     (case d of
        Finite r \<Rightarrow>
          (let t = (if 0 \<le> r then \<lfloor>r\<rfloor> else \<lceil>r\<rceil>)
           in if - (2 ^ 63) \<le> t \<and> t < 2 ^ 63 then Some t else None)
      | _ \<Rightarrow> None)"

text \<open>
  The conversion of a \<open>qint64\<close> or of a container size to double: the nearest
  double, which is the integer itself up to \<open>2^53\<close>.
\<close>

definition of_qint64 :: "int \<Rightarrow> double" where
  "of_qint64 n = round_double (of_int n)"

section \<open>The line chart with mean and deviation\<close>

datatype QPointF = QPointF (px: double) (py: double)

record QLineSeries =
  series_name :: string
  series_color :: QColor
  points :: "QPointF list"

record QDateTimeAxis =
  axis_format :: string
  axis_title :: string
  axis_range :: "(int \<times> int) option"
  axis_tickCount :: "nat option"

record QChart =
  series :: "QLineSeries list"
  axisX :: QDateTimeAxis
  legend_visible :: bool
  title :: string

text \<open>The UTF-8 bytes of the four string literals that are not ASCII.\<close>

definition name_mean :: string where
  "name_mean = [CHR 0xD0, CHR 0xA1, CHR 0xD1, CHR 0x80, CHR 0xD0, CHR 0xB5, CHR 0xD0, CHR 0xB4,
                CHR 0xD0, CHR 0xBD, CHR 0xD0, CHR 0xB5, CHR 0xD0, CHR 0xB5]"

definition name_upper :: string where
  "name_upper = [CHR 0x2B, CHR 0xCF, CHR 0x83]"

definition name_lower :: string where
  "name_lower = [CHR 0x2D, CHR 0xCF, CHR 0x83]"

definition title_time :: string where
  "title_time = [CHR 0xD0, CHR 0x92, CHR 0xD1, CHR 0x80, CHR 0xD0, CHR 0xB5, CHR 0xD0, CHR 0xBC,
                 CHR 0xD1, CHR 0x8F]"

text \<open>
  The first loop of \<open>plotLineStat\<close>: the points of the main series, the
  timestamps (a \<open>QDateTime\<close> made by \<open>fromMSecsSinceEpoch\<close> is represented by
  its milliseconds, which \<open>toMSecsSinceEpoch\<close> returns) and the values.
\<close>

fun collect ::
  "QPointF list \<Rightarrow> QPointF list \<times> int list \<times> double list
     \<Rightarrow> (QPointF list \<times> int list \<times> double list) option" where
  "collect [] acc = Some acc"
| "collect (pt # xys) (pts, datetimes, values) =
     (case to_qint64 (px pt) of
        None \<Rightarrow> None
      | Some ms \<Rightarrow>
          (let val = py pt
           in collect xys (pts @ [QPointF (of_qint64 ms) val], datetimes @ [ms], values @ [val])))"

definition mean_of :: "double list \<Rightarrow> double" where
  "mean_of values = ddiv (foldl dadd (Finite 0) values) (of_qint64 (int (length values)))"

definition stddev_of :: "double list \<Rightarrow> double" where
  "stddev_of values =
     dsqrt (ddiv (foldl (\<lambda>sum v. dadd sum (dmul (dsub v (mean_of values)) (dsub v (mean_of values))))
                        (Finite 0) values)
                 (of_qint64 (int (length values))))"

definition axis_format_of :: "string \<Rightarrow> string" where
  "axis_format_of freq =
     (if freq = ''1h'' \<or> freq = ''3h'' then ''HH:mm'' @ [CHR 0x0A] @ ''dd.MM''
      else if freq = ''6h'' \<or> freq = ''12h'' then ''HH:mm'' @ [CHR 0x0A] @ ''dd.MM''
      else ''dd.MM.yyyy'')"

text \<open>
  \<open>plotLineStat\<close> builds a chart and installs it in the view; the model
  returns that chart. The series are in the order in which they are added. The
  value axis and the attachment of the axes to the series carry no data of
  their own and are left out. The result is \<open>None\<close> when the cast of an x
  coordinate is undefined.
\<close>

definition plotLineStat ::
  "QPointF list \<Rightarrow> string \<Rightarrow> QColor \<Rightarrow> bool \<Rightarrow> string \<Rightarrow> QChart option" where
  "plotLineStat xys name color showDeviation freq =
     (case collect xys ([], [], []) of
        None \<Rightarrow> None
      | Some (pts, datetimes, values) \<Rightarrow>
          (let main = \<lparr> series_name = name, series_color = color, points = pts \<rparr>;
               mean = mean_of values;
               stddev = stddev_of values;
               meanL = \<lparr> series_name = name_mean, series_color = Qt_red,
                         points = map (\<lambda>i. QPointF (of_qint64 (datetimes ! i)) mean)
                                      [0..<length datetimes] \<rparr>;
               bands =
                 (if showDeviation \<and> dgreater stddev (Finite 0)
                  then [\<lparr> series_name = name_upper, series_color = Qt_gray,
                           points = map (\<lambda>i. QPointF (of_qint64 (datetimes ! i))
                                                      (dadd (values ! i) stddev))
                                        [0..<length datetimes] \<rparr>,
                        \<lparr> series_name = name_lower, series_color = Qt_gray,
                           points = map (\<lambda>i. QPointF (of_qint64 (datetimes ! i))
                                                      (dsub (values ! i) stddev))
                                        [0..<length datetimes] \<rparr>]
                  else []);
               axis = \<lparr> axis_format = axis_format_of freq, axis_title = title_time,
                        axis_range =
                          (if datetimes \<noteq> [] then Some (hd datetimes, last datetimes) else None),
                        axis_tickCount =
                          (if datetimes \<noteq> [] then Some (min 10 (length datetimes)) else None) \<rparr>
           in Some \<lparr> series = [main, meanL] @ bands, axisX = axis, legend_visible = True,
                     title = name \<rparr>))"



text \<open>
  The timestamp in milliseconds that the first loop reads from a point (0 where
  the cast is undefined, which the statements below exclude).
\<close>

definition timestamp :: "QPointF \<Rightarrow> int" where
  "timestamp pt = (case to_qint64 (px pt) of Some ms \<Rightarrow> ms | None \<Rightarrow> 0)"

text \<open>
  A real number is a double when rounding leaves it as it is. A sum
  accumulated from left to right is exact when every partial sum is a double,
  and the statistics of a series are exact when no intermediate result of their
  computation needs rounding: the size, the partial sums, the mean, every
  deviation and its square, the partial sums of the squares, their quotient by
  the size and its square root.
\<close>

definition is_double :: "real \<Rightarrow> bool" where
  "is_double r = (round_double r = Finite r)"



text \<open>
  Two example series for the chart: two samples an hour apart with the values 1
  and 3, and two samples with the same value.
\<close>

definition two_samples :: "QPointF list" where
  "two_samples = [QPointF (Finite 0) (Finite 1), QPointF (Finite 3600000) (Finite 3)]"

definition constant_series :: "QPointF list" where
  "constant_series = [QPointF (Finite 0) (Finite 5), QPointF (Finite 3600000) (Finite 5)]"

section \<open>Properties of \<open>fon\<close>\<close>

lemma fon_band_iff: "fon_band i t \<longleftrightarrow> i = band_of t"
  unfolding fon_band_def band_of_def by (simp; linarith)

lemma fon_palette: "fon (Finite t) = palette (band_of t)"
  unfolding fon_def band_of_def palette_def by simp

text \<open>
  C1, as the specification states it, fails at 15: the bands \<open>(10,15]\<close> and
  \<open>[15,21)\<close> both contain 15, and \<open>fon\<close> returns the colour of \<open>(10,15]\<close>,
  not the colour of \<open>[15,21)\<close>.
\<close>

theorem fon_spec_band_15_counterexample:
  "spec_band 5 15 \<and> spec_band 6 15 \<and>
   fon (Finite 15) = palette 5 \<and> fon (Finite 15) \<noteq> palette 6 \<and>
   fon (Finite 15) = QColor ''#DEB887'' \<and> palette 6 = QColor ''#DAA520''"
  by (simp add: spec_band_def fon_def palette_def)

text \<open>
  C1 (amended): \<open>fon\<close> is total and band-exhaustive on finite inputs. For every
  finite temperature exactly one of the nine bands \<open>< -20\<close>, \<open>[-20,-10]\<close>,
  \<open>(-10,-5]\<close>, \<open>(-5,0]\<close>, \<open>(0,10]\<close>, \<open>(10,15]\<close>, \<open>(15,21)\<close>, \<open>[21,26)\<close>,
  \<open>>= 26\<close> matches, and \<open>fon\<close> returns the palette colour of that band. The
  boundary values map as follows: -20 and -10 to the colour of \<open>[-20,-10]\<close>
  (\<open>#4682B4\<close>), -5 to that of \<open>(-10,-5]\<close>, 0 to that of \<open>(-5,0]\<close>, 10 to that
  of \<open>(0,10]\<close>, 15 to that of \<open>(10,15]\<close> (\<open>#DEB887\<close>), 21 to that of
  \<open>[21,26)\<close> (\<open>#FF8C00\<close>) and 26 to that of \<open>>= 26\<close> (\<open>#B22222\<close>).
\<close>

theorem fon_band_exhaustive:
  "(\<exists>!i. fon_band i t) \<and>
   (\<forall>i. fon_band i t \<longrightarrow> i < 9 \<and> fon (Finite t) = palette i) \<and>
   fon (Finite (- 20)) = QColor ''#4682B4'' \<and> fon_band 1 (- 20) \<and>
   fon (Finite (- 10)) = QColor ''#4682B4'' \<and> fon_band 1 (- 10) \<and>
   fon (Finite (- 5)) = QColor ''#B0E0E6'' \<and> fon_band 2 (- 5) \<and>
   fon (Finite 0) = QColor ''#E0FFFF'' \<and> fon_band 3 0 \<and>
   fon (Finite 10) = QColor ''#FFE4B5'' \<and> fon_band 4 10 \<and>
   fon (Finite 15) = QColor ''#DEB887'' \<and> fon_band 5 15 \<and>
   fon (Finite 21) = QColor ''#FF8C00'' \<and> fon_band 7 21 \<and>
   fon (Finite 26) = QColor ''#B22222'' \<and> fon_band 8 26"
proof -
  have uniq: "\<exists>!i. fon_band i t"
    by (simp add: fon_band_iff)
  have col: "\<forall>i. fon_band i t \<longrightarrow> i < 9 \<and> fon (Finite t) = palette i"
  proof (intro allI impI)
    fix i assume "fon_band i t"
    then have i: "i = band_of t" by (simp add: fon_band_iff)
    have "band_of t < 9" by (simp add: band_of_def)
    with i show "i < 9 \<and> fon (Finite t) = palette i"
      by (simp add: fon_palette)
  qed
  have bounds:
    "fon (Finite (- 20)) = QColor ''#4682B4''" "fon_band 1 (- 20)"
    "fon (Finite (- 10)) = QColor ''#4682B4''" "fon_band 1 (- 10)"
    "fon (Finite (- 5)) = QColor ''#B0E0E6''" "fon_band 2 (- 5)"
    "fon (Finite 0) = QColor ''#E0FFFF''" "fon_band 3 0"
    "fon (Finite 10) = QColor ''#FFE4B5''" "fon_band 4 10"
    "fon (Finite 15) = QColor ''#DEB887''" "fon_band 5 15"
    "fon (Finite 21) = QColor ''#FF8C00''" "fon_band 7 21"
    "fon (Finite 26) = QColor ''#B22222''" "fon_band 8 26"
    by (simp_all add: fon_def fon_band_def)
  from uniq col bounds show ?thesis by blast
qed

theorem fon_band_exhaustive_witness:
  "fon_band 6 20 \<and> fon (Finite 20) = QColor ''#DAA520''"
proof -
  have b: "fon_band 6 20" by (simp add: fon_band_def)
  from fon_band_exhaustive [of 20] have
    "\<forall>i. fon_band i 20 \<longrightarrow> i < 9 \<and> fon (Finite 20) = palette i" by blast
  with b have "fon (Finite 20) = palette 6" by blast
  with b show ?thesis by (simp add: palette_def)
qed

text \<open>
  C10: \<open>fon\<close> is total over all doubles. NaN fails every comparison of the
  dispatch and reaches the final branch, the deep red \<open>#B22222\<close>; plus infinity
  returns \<open>#B22222\<close> as well, and minus infinity the deep blue \<open>#191970\<close>. Every
  double is mapped to one of the nine palette colours.
\<close>

theorem fon_non_finite:
  "fon NaN = QColor ''#B22222'' \<and> fon PosInf = QColor ''#B22222'' \<and>
   fon NegInf = QColor ''#191970'' \<and> (\<exists>i < 9. fon d = palette i)"
proof -
  have special: "fon NaN = QColor ''#B22222''" "fon PosInf = QColor ''#B22222''"
    "fon NegInf = QColor ''#191970''"
    by (simp_all add: fon_def)
  have "\<exists>i < 9. fon d = palette i"
  proof (cases d)
    case (Finite t)
    have "band_of t < 9" by (simp add: band_of_def)
    with Finite show ?thesis using fon_palette by blast
  next
    case PosInf
    with special have "fon d = palette 8" by (simp add: palette_def)
    then show ?thesis by (intro exI [of _ 8]) simp
  next
    case NegInf
    with special have "fon d = palette 0" by (simp add: palette_def)
    then show ?thesis by (intro exI [of _ 0]) simp
  next
    case NaN
    with special have "fon d = palette 8" by (simp add: palette_def)
    then show ?thesis by (intro exI [of _ 8]) simp
  qed
  with special show ?thesis by blast
qed

section \<open>Properties of the extraction\<close>

lemma ceil_step:
  fixes i k n :: nat
  assumes k: "0 < k" and lt: "i < n"
  shows "(n - i + k - 1) div k = Suc ((n - (i + k) + k - 1) div k)"
proof (cases "i + k \<le> n")
  case True
  define a where "a = n - (i + k) + k - 1"
  have e: "n - i + k - 1 = a + k" unfolding a_def using True k by linarith
  have "(a + k) div k = a div k + 1"
    by (rule div_add_self2) (use k in simp)
  then show ?thesis unfolding e a_def [symmetric] by (simp only: Suc_eq_plus1)
next
  case False
  define a where "a = n - i - 1"
  have e: "n - i + k - 1 = a + k" unfolding a_def using lt k by linarith
  have a: "a < k" unfolding a_def using False lt by linarith
  have e2: "n - (i + k) + k - 1 = k - 1" using False by linarith
  have "(a + k) div k = a div k + 1"
    by (rule div_add_self2) (use k in simp)
  also have "a div k = 0" using a by (rule div_less)
  finally have l: "(n - i + k - 1) div k = 1" unfolding e by (simp only: add_0)
  have "k - 1 < k" using k by linarith
  then have r: "(k - 1) div k = 0" by (rule div_less)
  show ?thesis unfolding l e2 r by (simp only: One_nat_def)
qed

lemma stride_unroll:
  fixes g :: "nat \<Rightarrow> 'a" and i k m :: nat
  shows "map (\<lambda>j. g (i + j * k)) [0..<Suc m] = g i # map (\<lambda>j. g (i + k + j * k)) [0..<m]"
proof -
  have idx: "\<And>j. i + Suc j * k = i + k + j * k" by simp
  have "map (\<lambda>j. g (i + j * k)) [0..<Suc m] = g (i + 0 * k) # map (\<lambda>j. g (i + Suc j * k)) [0..<m]"
    by (rule map_upt_Suc)
  then show ?thesis by (simp only: idx mult_0 add_0_right)
qed

lemma hours_loop_stride:
  "hours_loop freq date hours i result =
     result @ map (\<lambda>j. make_point date (hours ! (i + j * freq_interval freq)))
                  [0..<(length hours - i + freq_interval freq - 1) div freq_interval freq]"
proof (induction freq date hours i result rule: hours_loop.induct)
  case (1 freq date hours i result)
  let ?k = "freq_interval freq"
  have k: "0 < ?k" by (rule freq_interval_pos)
  show ?case
  proof (cases "i < length hours")
    case True
    from ceil_step [OF k True]
    have cnt: "(length hours - i + ?k - 1) div ?k = Suc ((length hours - (i + ?k) + ?k - 1) div ?k)" .
    have "hours_loop freq date hours i result =
            hours_loop freq date hours (i + ?k) (result @ [make_point date (hours ! i)])"
      by (subst hours_loop.simps) (simp only: True if_True)
    also have "\<dots> = (result @ [make_point date (hours ! i)]) @
        map (\<lambda>j. make_point date (hours ! (i + ?k + j * ?k)))
            [0..<(length hours - (i + ?k) + ?k - 1) div ?k]"
      by (rule "1.IH" [OF True])
    also have "\<dots> = result @ map (\<lambda>j. make_point date (hours ! (i + j * ?k)))
            [0..<Suc ((length hours - (i + ?k) + ?k - 1) div ?k)]"
      by (simp only: stride_unroll [where g = "\<lambda>h. make_point date (hours ! h)"] append_assoc append_Cons append_Nil)
    finally show ?thesis by (simp only: cnt)
  next
    case False
    then have "length hours - i = 0" by simp
    then have z: "(length hours - i + ?k - 1) div ?k = 0" using k by simp
    have "hours_loop freq date hours i result = result"
      by (subst hours_loop.simps) (simp only: False if_False)
    then show ?thesis by (simp only: z upt_0 list.map append_Nil2)
  qed
qed

lemma hours_loop_0:
  "hours_loop freq date hours 0 result =
     result @ map (\<lambda>h. make_point date (hours ! h)) (stride_indices (freq_interval freq) (length hours))"
  by (simp add: hours_loop_stride stride_indices_def comp_def)


lemma days_loop_positions:
  "days_loop freq days result =
     result @ map (sample_at (pre @ days)) (positions_from (freq_interval freq) (length pre) days)"
proof (induction days arbitrary: pre result)
  case Nil
  show ?case by simp
next
  case (Cons dayV days)
  have IH: "\<And>r. days_loop freq days r =
     r @ map (sample_at (pre @ dayV # days)) (positions_from (freq_interval freq) (Suc (length pre)) days)"
    using Cons.IH [of _ "pre @ [dayV]"] by simp
  show ?case
  proof (cases "contains (toObject dayV) ''hours''")
    case True
    then show ?thesis
      by (simp add: IH hours_loop_0 sample_at_def hour_entries_def day_date_def Let_def comp_def)
  next
    case False
    then have "hour_entries dayV = []"
      by (simp add: hour_entries_def contains_def at_key_def toArray_def)
    then have "stride_indices (freq_interval freq) (length (hour_entries dayV)) = []"
      using freq_interval_pos [of freq] by (simp add: stride_indices_def)
    with False show ?thesis by (simp add: IH Let_def)
  qed
qed


lemma ceil_div_nat:
  fixes n k :: nat
  assumes k: "0 < k"
  shows "nat \<lceil>real n / real k\<rceil> = (n + k - 1) div k"
proof -
  define q where "q = (n + k - 1) div k"
  define r where "r = (n + k - 1) mod k"
  have dm: "n + k - 1 = q * k + r" unfolding q_def r_def by simp
  have r: "r < k" unfolding r_def using k by simp
  have up: "n \<le> q * k" using dm r k by linarith
  have lo: "q * k < n + k" using dm k by linarith
  have "real n \<le> real (q * k)" using up by (simp only: of_nat_le_iff)
  then have a: "real n / real k \<le> real q" using k by (simp add: pos_divide_le_eq)
  have "real (q * k) < real (n + k)" using lo by (simp only: of_nat_less_iff)
  then have "real q * real k < real n + real k" by simp
  then have "real q < (real n + real k) / real k" using k by (simp add: pos_less_divide_eq)
  also have "(real n + real k) / real k = real n / real k + 1" using k by (simp add: add_divide_distrib)
  finally have b: "real q - 1 < real n / real k" by simp
  have "\<lceil>real n / real k\<rceil> = int q"
    by (rule ceiling_unique) (use a b in simp_all)
  then show ?thesis unfolding q_def by simp
qed

lemma stride_sorted:
  fixes k :: nat
  assumes "0 < k"
  shows "sorted_wrt (<) (map (\<lambda>j. j * k) [0..<m])"
  using assms by (simp add: sorted_wrt_map sorted_wrt_iff_nth_less)

lemma stride_bound:
  fixes n k j :: nat
  assumes k: "0 < k" and j: "j < (n + k - 1) div k"
  shows "j * k < n"
proof -
  from j have "Suc j \<le> (n + k - 1) div k" by simp
  then have "Suc j * k \<le> n + k - 1" using k by (simp add: less_eq_div_iff_mult_less_eq)
  then show ?thesis using k by simp
qed

lemma ceil_le:
  fixes n k :: nat
  assumes k: "0 < k"
  shows "(n + k - 1) div k \<le> n"
proof (cases "n = 0")
  case True
  then show ?thesis using k by simp
next
  case False
  have "(n + k - 1) div k \<le> (n * k) div k"
  proof (rule div_le_mono)
    have "n + k \<le> n * k + 1"
    proof -
      obtain n' where n: "n = Suc n'" using False by (cases n) auto
      obtain k' where k': "k = Suc k'" using k by (cases k) auto
      show ?thesis unfolding n k' by simp
    qed
    then show "n + k - 1 \<le> n * k" by simp
  qed
  then show ?thesis using k by simp
qed


lemma stride_indices_length: "length (stride_indices k n) = (n + k - 1) div k"
  by (simp add: stride_indices_def)

lemma stride_indices_sorted: "0 < k \<Longrightarrow> sorted_wrt (<) (stride_indices k n)"
  unfolding stride_indices_def by (rule stride_sorted)

lemma stride_indices_bound:
  assumes "0 < k" and "h \<in> set (stride_indices k n)"
  shows "h < n"
proof -
  from assms(2) obtain j where "j < (n + k - 1) div k" and "h = j * k"
    by (auto simp: stride_indices_def)
  with stride_bound [OF assms(1)] show ?thesis by simp
qed

lemma no_hours_no_entries:
  "\<not> contains (toObject dayV) ''hours'' \<Longrightarrow> hour_entries dayV = []"
  by (simp add: hour_entries_def contains_def at_key_def toArray_def)

lemma day_samples_no_hours:
  "\<not> contains (toObject dayV) ''hours'' \<Longrightarrow> day_samples (freq_interval freq) dayV = []"
  using freq_interval_pos [of freq]
  by (simp add: day_samples_def no_hours_no_entries stride_indices_def)

lemma days_loop_concat:
  "days_loop freq days result = result @ concat (map (day_samples (freq_interval freq)) days)"
proof (induction days arbitrary: result)
  case Nil
  show ?case by simp
next
  case (Cons dayV days)
  show ?case
  proof (cases "contains (toObject dayV) ''hours''")
    case True
    then show ?thesis
      by (simp add: Cons.IH hours_loop_0 day_samples_def hour_entries_def day_date_def Let_def)
  next
    case False
    then show ?thesis
      by (simp add: Cons.IH day_samples_no_hours Let_def)
  qed
qed

lemma parse_concat:
  "parseVisualCrossingJson doc freq =
     concat (map (day_samples (freq_interval freq)) (doc_days doc))"
  by (simp add: parseVisualCrossingJson_def doc_days_def days_loop_concat Let_def)

lemma parse_positions:
  "parseVisualCrossingJson doc freq = map (sample_at (doc_days doc)) (source_positions doc freq)"
  using days_loop_positions [of freq "doc_days doc" "[]" "[]"]
  by (simp add: parseVisualCrossingJson_def doc_days_def source_positions_def Let_def)

lemma positions_from_set:
  assumes "0 < k" and "p \<in> set (positions_from k d days)"
  shows "d \<le> fst p \<and> fst p < d + length days \<and>
         snd p < length (hour_entries (days ! (fst p - d)))"
  using assms(2)
proof (induction days arbitrary: d)
  case Nil
  then show ?case by simp
next
  case (Cons dayV days)
  from Cons.prems consider
    (here) "p \<in> Pair d ` set (stride_indices k (length (hour_entries dayV)))"
    | (later) "p \<in> set (positions_from k (Suc d) days)"
    by auto
  then show ?case
  proof cases
    case here
    then obtain h where "p = (d, h)" and "h \<in> set (stride_indices k (length (hour_entries dayV)))"
      by auto
    with stride_indices_bound [OF assms(1)] show ?thesis by simp
  next
    case later
    from Cons.IH [OF later]
    have a: "Suc d \<le> fst p" and b: "fst p < Suc d + length days"
      and c: "snd p < length (hour_entries (days ! (fst p - Suc d)))" by simp_all
    from a have "(dayV # days) ! (fst p - d) = days ! (fst p - Suc d)"
      by (simp add: Suc_diff_le Suc_le_eq less_imp_le)
    with a b c show ?thesis by simp
  qed
qed

lemma positions_from_sorted:
  assumes "0 < k"
  shows "sorted_wrt position_less (positions_from k d days)"
proof (induction days arbitrary: d)
  case Nil
  show ?case by simp
next
  case (Cons dayV days)
  have here: "sorted_wrt position_less (map (Pair d) (stride_indices k (length (hour_entries dayV))))"
    using stride_indices_sorted [OF assms, of "length (hour_entries dayV)"]
    by (simp add: sorted_wrt_map position_less_def)
  have cross: "position_less p q"
    if "p \<in> set (map (Pair d) (stride_indices k (length (hour_entries dayV))))"
      and "q \<in> set (positions_from k (Suc d) days)" for p q
  proof -
    from that(1) have "fst p = d" by auto
    moreover from positions_from_set [OF assms that(2)] have "Suc d \<le> fst q" by simp
    ultimately show ?thesis by (simp add: position_less_def)
  qed
  show ?case
    using here Cons.IH [of "Suc d"] cross
    by (simp add: sorted_wrt_append)
qed

lemma positions_from_length:
  "length (positions_from k d days) =
     sum_list (map (\<lambda>dayV. (length (hour_entries dayV) + k - 1) div k) days)"
  by (induction days arbitrary: d) (simp_all add: stride_indices_length)

lemma positions_from_length_le:
  assumes "0 < k"
  shows "length (positions_from k d days) \<le> sum_list (map (\<lambda>dayV. length (hour_entries dayV)) days)"
  unfolding positions_from_length
  by (rule sum_list_mono) (rule ceil_le [OF assms])

lemma stride_indices_nth:
  "j < length (stride_indices k n) \<Longrightarrow> stride_indices k n ! j = j * k"
  by (simp add: stride_indices_def)

lemma day_samples_length:
  "length (day_samples (freq_interval freq) dayV) =
     nat \<lceil>real (length (hour_entries dayV)) / real (freq_interval freq)\<rceil>"
  by (simp only: day_samples_def length_map stride_indices_length
        ceil_div_nat [OF freq_interval_pos])

lemma day_samples_nth:
  assumes "j < length (day_samples k dayV)"
  shows "day_samples k dayV ! j = make_point (day_date dayV) (hour_entries dayV ! (j * k))"
proof -
  from assms have j: "j < length (stride_indices k (length (hour_entries dayV)))"
    by (simp add: day_samples_def)
  then show ?thesis by (simp add: day_samples_def stride_indices_nth)
qed

lemma freq_interval_unrecognized:
  "freq \<notin> set [''1h'', ''3h'', ''6h'', ''12h'', ''1d''] \<Longrightarrow> freq_interval freq = 1"
  by (simp add: freq_interval_def)

text \<open>
  C4: for the recognized frequencies \<open>1h\<close>, \<open>3h\<close>, \<open>6h\<close>, \<open>12h\<close>, \<open>1d\<close> the
  stride is 1, 3, 6, 12, 24. The output is the concatenation, day by day, of the
  samples of the hourly entries at the indices 0, interval, 2 * interval, ...; a
  day contributes ceil(hourly_count / interval) samples. For an unrecognized
  frequency the interval is 1 and the output is the output for \<open>1h\<close>.
\<close>

theorem extract_stride_sampling:
  "freq_interval ''1h'' = 1 \<and> freq_interval ''3h'' = 3 \<and> freq_interval ''6h'' = 6 \<and>
   freq_interval ''12h'' = 12 \<and> freq_interval ''1d'' = 24 \<and>
   parseVisualCrossingJson doc freq =
     concat (map (day_samples (freq_interval freq)) (doc_days doc)) \<and>
   length (day_samples (freq_interval freq) dayV) =
     nat \<lceil>real (length (hour_entries dayV)) / real (freq_interval freq)\<rceil> \<and>
   (\<forall>j < length (day_samples (freq_interval freq) dayV).
      day_samples (freq_interval freq) dayV ! j =
        make_point (day_date dayV) (hour_entries dayV ! (j * freq_interval freq))) \<and>
   (freq \<notin> set [''1h'', ''3h'', ''6h'', ''12h'', ''1d''] \<longrightarrow>
      freq_interval freq = 1 \<and>
      parseVisualCrossingJson doc freq = parseVisualCrossingJson doc ''1h'')"
proof -
  have known: "freq_interval ''1h'' = 1" "freq_interval ''3h'' = 3" "freq_interval ''6h'' = 6"
    "freq_interval ''12h'' = 12" "freq_interval ''1d'' = 24"
    by (simp_all add: freq_interval_def)
  have nth: "\<forall>j < length (day_samples (freq_interval freq) dayV).
      day_samples (freq_interval freq) dayV ! j =
        make_point (day_date dayV) (hour_entries dayV ! (j * freq_interval freq))"
    by (simp add: day_samples_nth)
  have other: "freq \<notin> set [''1h'', ''3h'', ''6h'', ''12h'', ''1d''] \<longrightarrow>
      freq_interval freq = 1 \<and>
      parseVisualCrossingJson doc freq = parseVisualCrossingJson doc ''1h''"
  proof
    assume "freq \<notin> set [''1h'', ''3h'', ''6h'', ''12h'', ''1d'']"
    then have one: "freq_interval freq = 1" by (rule freq_interval_unrecognized)
    then have "parseVisualCrossingJson doc freq = parseVisualCrossingJson doc ''1h''"
      by (simp only: parse_concat known(1))
    with one show "freq_interval freq = 1 \<and>
      parseVisualCrossingJson doc freq = parseVisualCrossingJson doc ''1h''" by simp
  qed
  from known parse_concat [of doc freq] day_samples_length [of freq dayV] nth other
  show ?thesis by (intro conjI)
qed

lemma test_schedule_days:
  "doc_days test_schedule =
     [JObject [(''datetime'', JString ''2023-01-01''), (''hours'', JArray [test_hour0, test_hour1])]]"
  by (simp add: doc_days_def test_schedule_def doc_object_def at_key_def toArray_def)

lemma test_schedule_hours:
  "hour_entries (JObject [(''datetime'', JString ''2023-01-01''),
      (''hours'', JArray [test_hour0, test_hour1])]) = [test_hour0, test_hour1]"
  by (simp add: hour_entries_def toObject_def at_key_def toArray_def)

theorem extract_stride_sampling_witness:
  "length (parseVisualCrossingJson test_schedule ''1h'') = 2 \<and>
   length (parseVisualCrossingJson test_schedule ''3h'') = 1 \<and>
   parseVisualCrossingJson test_schedule ''hourly'' = parseVisualCrossingJson test_schedule ''1h''"
proof -
  let ?day = "JObject [(''datetime'', JString ''2023-01-01''), (''hours'', JArray [test_hour0, test_hour1])]"
  have a: "length (parseVisualCrossingJson test_schedule ''1h'') = 2"
    using extract_stride_sampling [of test_schedule "''1h''" ?day]
    by (simp add: test_schedule_days test_schedule_hours freq_interval_def)
  have b: "length (parseVisualCrossingJson test_schedule ''3h'') = 1"
    using extract_stride_sampling [of test_schedule "''3h''" ?day]
    by (simp add: test_schedule_days test_schedule_hours freq_interval_def)
  have c: "parseVisualCrossingJson test_schedule ''hourly'' = parseVisualCrossingJson test_schedule ''1h''"
  proof -
    have "''hourly'' \<notin> set [''1h'', ''3h'', ''6h'', ''12h'', ''1d'']" by simp
    with extract_stride_sampling [of test_schedule "''hourly''" ?day] show ?thesis by blast
  qed
  from a b c show ?thesis by simp
qed


lemma source_positions_valid:
  assumes "p \<in> set (source_positions doc freq)"
  shows "fst p < length (doc_days doc) \<and> snd p < length (hour_entries (doc_days doc ! fst p))"
  using positions_from_set [OF freq_interval_pos, of p freq 0 "doc_days doc"] assms
  by (simp add: source_positions_def)

lemma source_positions_sorted:
  "sorted_wrt position_less (source_positions doc freq)"
  unfolding source_positions_def by (rule positions_from_sorted [OF freq_interval_pos])

lemma source_positions_length_le:
  "length (source_positions doc freq) \<le> total_hourly_entries doc"
  unfolding source_positions_def total_hourly_entries_def
  by (rule positions_from_length_le [OF freq_interval_pos])

text \<open>
  C5: the extraction never reorders or duplicates. The output is the list of
  the samples at the selected source positions (day index, hour index), every
  selected position exists in the document, and for all output positions
  \<open>i < j\<close> the day index of sample \<open>i\<close> is at most that of sample \<open>j\<close>;
  when the two day indices are equal, the hour index of sample \<open>i\<close> is strictly
  below that of sample \<open>j\<close>. The output is at most as long as the number of
  hourly entries of all days together.
\<close>

theorem extract_preserves_order:
  "parseVisualCrossingJson doc freq = map (sample_at (doc_days doc)) (source_positions doc freq) \<and>
   (\<forall>n < length (source_positions doc freq).
      fst (source_positions doc freq ! n) < length (doc_days doc) \<and>
      snd (source_positions doc freq ! n)
        < length (hour_entries (doc_days doc ! fst (source_positions doc freq ! n)))) \<and>
   (\<forall>i j. i < j \<and> j < length (parseVisualCrossingJson doc freq) \<longrightarrow>
      fst (source_positions doc freq ! i) \<le> fst (source_positions doc freq ! j) \<and>
      (fst (source_positions doc freq ! i) = fst (source_positions doc freq ! j) \<longrightarrow>
         snd (source_positions doc freq ! i) < snd (source_positions doc freq ! j))) \<and>
   length (parseVisualCrossingJson doc freq) \<le> total_hourly_entries doc"
proof -
  let ?pos = "source_positions doc freq"
  have out: "parseVisualCrossingJson doc freq = map (sample_at (doc_days doc)) ?pos"
    by (rule parse_positions)
  then have len: "length (parseVisualCrossingJson doc freq) = length ?pos" by simp
  have valid: "\<forall>n < length ?pos. fst (?pos ! n) < length (doc_days doc) \<and>
      snd (?pos ! n) < length (hour_entries (doc_days doc ! fst (?pos ! n)))"
    using source_positions_valid [of _ doc freq] by simp
  have order: "\<forall>i j. i < j \<and> j < length (parseVisualCrossingJson doc freq) \<longrightarrow>
      fst (?pos ! i) \<le> fst (?pos ! j) \<and>
      (fst (?pos ! i) = fst (?pos ! j) \<longrightarrow> snd (?pos ! i) < snd (?pos ! j))"
  proof (intro allI impI)
    fix i j assume "i < j \<and> j < length (parseVisualCrossingJson doc freq)"
    then have "i < j" "j < length ?pos" using len by simp_all
    with source_positions_sorted [of doc freq] have "position_less (?pos ! i) (?pos ! j)"
      by (simp add: sorted_wrt_iff_nth_less)
    then show "fst (?pos ! i) \<le> fst (?pos ! j) \<and>
      (fst (?pos ! i) = fst (?pos ! j) \<longrightarrow> snd (?pos ! i) < snd (?pos ! j))"
      by (auto simp: position_less_def)
  qed
  have bound: "length (parseVisualCrossingJson doc freq) \<le> total_hourly_entries doc"
    using source_positions_length_le [of doc freq] len by simp
  from out valid order bound show ?thesis by (intro conjI)
qed

lemma test_schedule_positions:
  "source_positions test_schedule ''1h'' = [(0, 0), (0, 1)]"
  by (simp add: source_positions_def test_schedule_days test_schedule_hours
        stride_indices_def freq_interval_def)

theorem extract_preserves_order_witness:
  "length (parseVisualCrossingJson test_schedule ''1h'') = 2 \<and>
   source_positions test_schedule ''1h'' = [(0, 0), (0, 1)] \<and>
   fst (source_positions test_schedule ''1h'' ! 0) \<le> fst (source_positions test_schedule ''1h'' ! 1) \<and>
   snd (source_positions test_schedule ''1h'' ! 0) < snd (source_positions test_schedule ''1h'' ! 1)"
proof -
  note t = extract_preserves_order [of test_schedule "''1h''"]
  from t have "parseVisualCrossingJson test_schedule ''1h'' =
      map (sample_at (doc_days test_schedule)) (source_positions test_schedule ''1h'')"
    by blast
  then have len: "length (parseVisualCrossingJson test_schedule ''1h'') = 2"
    by (simp add: test_schedule_positions)
  from t have "\<forall>i j. i < j \<and> j < length (parseVisualCrossingJson test_schedule ''1h'') \<longrightarrow>
      fst (source_positions test_schedule ''1h'' ! i) \<le> fst (source_positions test_schedule ''1h'' ! j) \<and>
      (fst (source_positions test_schedule ''1h'' ! i) = fst (source_positions test_schedule ''1h'' ! j) \<longrightarrow>
         snd (source_positions test_schedule ''1h'' ! i) < snd (source_positions test_schedule ''1h'' ! j))"
    by blast
  then have "(0::nat) < 1 \<and> 1 < length (parseVisualCrossingJson test_schedule ''1h'') \<longrightarrow>
      fst (source_positions test_schedule ''1h'' ! 0) \<le> fst (source_positions test_schedule ''1h'' ! 1) \<and>
      (fst (source_positions test_schedule ''1h'' ! 0) = fst (source_positions test_schedule ''1h'' ! 1) \<longrightarrow>
         snd (source_positions test_schedule ''1h'' ! 0) < snd (source_positions test_schedule ''1h'' ! 1))"
    by blast
  with len show ?thesis by (simp add: test_schedule_positions)
qed


lemma parse_no_days:
  "doc_days doc = [] \<Longrightarrow> parseVisualCrossingJson doc freq = []"
  by (simp add: parse_concat)

text \<open>
  C6: a document that is null (empty input, a parse error, a scalar at the top
  level) or holds an array at the top level, and an object whose \<open>days\<close> key
  is missing or is not an array, all yield the empty sequence. The function
  has no failing branch: it returns a list for every document and every
  frequency string.
\<close>

theorem extract_malformed_document:
  "parseVisualCrossingJson NullDocument freq = [] \<and>
   parseVisualCrossingJson (ArrayDocument a) freq = [] \<and>
   parseVisualCrossingJson (ObjectDocument []) freq = [] \<and>
   (\<not> contains ob ''days'' \<longrightarrow> parseVisualCrossingJson (ObjectDocument ob) freq = []) \<and>
   ((\<forall>ds. at_key ob ''days'' \<noteq> JArray ds) \<longrightarrow>
      parseVisualCrossingJson (ObjectDocument ob) freq = [])"
proof -
  have null: "parseVisualCrossingJson NullDocument freq = []"
    by (rule parse_no_days) (simp add: doc_days_def doc_object_def at_key_def toArray_def)
  have arr: "parseVisualCrossingJson (ArrayDocument a) freq = []"
    by (rule parse_no_days) (simp add: doc_days_def doc_object_def at_key_def toArray_def)
  have empty: "parseVisualCrossingJson (ObjectDocument []) freq = []"
    by (rule parse_no_days) (simp add: doc_days_def doc_object_def at_key_def toArray_def)
  have missing: "\<not> contains ob ''days'' \<longrightarrow> parseVisualCrossingJson (ObjectDocument ob) freq = []"
  proof
    assume "\<not> contains ob ''days''"
    then have "doc_days (ObjectDocument ob) = []"
      by (simp add: doc_days_def doc_object_def at_key_def toArray_def contains_def)
    then show "parseVisualCrossingJson (ObjectDocument ob) freq = []" by (rule parse_no_days)
  qed
  have other: "(\<forall>ds. at_key ob ''days'' \<noteq> JArray ds) \<longrightarrow>
      parseVisualCrossingJson (ObjectDocument ob) freq = []"
  proof
    assume "\<forall>ds. at_key ob ''days'' \<noteq> JArray ds"
    then have "toArray (at_key ob ''days'') = []"
      by (cases "at_key ob ''days''") (simp_all add: toArray_def)
    then have "doc_days (ObjectDocument ob) = []"
      by (simp add: doc_days_def doc_object_def)
    then show "parseVisualCrossingJson (ObjectDocument ob) freq = []" by (rule parse_no_days)
  qed
  from null arr empty missing other show ?thesis by (intro conjI)
qed

theorem extract_malformed_document_witness:
  "parseVisualCrossingJson (ObjectDocument [(''hours'', JArray [test_hour0])]) ''1h'' = [] \<and>
   parseVisualCrossingJson (ObjectDocument [(''days'', JString ''2023-01-01'')]) ''1h'' = []"
proof -
  have a: "\<not> contains [(''hours'', JArray [test_hour0])] ''days''"
    by (simp add: contains_def)
  have b: "\<forall>ds. at_key [(''days'', JString ''2023-01-01'')] ''days'' \<noteq> JArray ds"
    by (simp add: at_key_def)
  from a extract_malformed_document [of "''1h''" a "[(''hours'', JArray [test_hour0])]"]
  have "parseVisualCrossingJson (ObjectDocument [(''hours'', JArray [test_hour0])]) ''1h'' = []"
    by blast
  moreover from b extract_malformed_document [of "''1h''" a "[(''days'', JString ''2023-01-01'')]"]
  have "parseVisualCrossingJson (ObjectDocument [(''days'', JString ''2023-01-01'')]) ''1h'' = []"
    by blast
  ultimately show ?thesis by simp
qed

lemma concat_day_samples_skip:
  assumes "\<not> contains (toObject dayV) ''hours''"
  shows "concat (map (day_samples (freq_interval freq)) (before @ dayV # after)) =
         concat (map (day_samples (freq_interval freq)) before) @
         concat (map (day_samples (freq_interval freq)) after)"
  by (simp add: day_samples_no_hours [OF assms])

lemma doc_days_single: "doc_days (ObjectDocument [(''days'', JArray ds)]) = ds"
  by (simp add: doc_days_def doc_object_def at_key_def toArray_def)

text \<open>
  C7: a day entry without the key \<open>hours\<close> contributes no sample and raises
  no error, and the extraction continues with the other days: when the days
  are \<open>before @ dayV # after\<close> and \<open>dayV\<close> has no key \<open>hours\<close>, the output
  consists of the samples of the hourly entries at the indices 0, interval,
  2 * interval, ... of each of the days \<open>before @ after\<close>, in their order. It
  is the output for the days \<open>before\<close> followed by the output for the days
  \<open>after\<close>, and the output for the document without that day.
\<close>

theorem day_without_hours_skipped:
  assumes "\<not> contains (toObject dayV) ''hours''"
    and "doc_days doc = before @ dayV # after"
  shows "parseVisualCrossingJson doc freq =
           concat (map (\<lambda>d. map (\<lambda>h. make_point (day_date d) (hour_entries d ! h))
                                (stride_indices (freq_interval freq) (length (hour_entries d))))
                       (before @ after)) \<and>
         day_samples (freq_interval freq) dayV = [] \<and>
         parseVisualCrossingJson doc freq =
           parseVisualCrossingJson (ObjectDocument [(''days'', JArray before)]) freq @
           parseVisualCrossingJson (ObjectDocument [(''days'', JArray after)]) freq \<and>
         parseVisualCrossingJson doc freq =
           parseVisualCrossingJson (ObjectDocument [(''days'', JArray (before @ after))]) freq"
proof -
  have ds: "day_samples (freq_interval freq) =
      (\<lambda>d. map (\<lambda>h. make_point (day_date d) (hour_entries d ! h))
                (stride_indices (freq_interval freq) (length (hour_entries d))))"
    by (rule ext) (simp add: day_samples_def)
  have "parseVisualCrossingJson doc freq =
          concat (map (day_samples (freq_interval freq)) before) @
          concat (map (day_samples (freq_interval freq)) after)"
    by (simp only: parse_concat assms(2) concat_day_samples_skip [OF assms(1)])
  then have a: "parseVisualCrossingJson doc freq =
          concat (map (day_samples (freq_interval freq)) (before @ after))"
    by simp
  from a have b: "parseVisualCrossingJson doc freq =
           concat (map (\<lambda>d. map (\<lambda>h. make_point (day_date d) (hour_entries d ! h))
                                (stride_indices (freq_interval freq) (length (hour_entries d))))
                       (before @ after))"
    by (simp only: ds)
  have c: "day_samples (freq_interval freq) dayV = []"
    by (rule day_samples_no_hours [OF assms(1)])
  have d: "parseVisualCrossingJson doc freq =
           parseVisualCrossingJson (ObjectDocument [(''days'', JArray before)]) freq @
           parseVisualCrossingJson (ObjectDocument [(''days'', JArray after)]) freq"
    using a by (simp add: parse_concat doc_days_single)
  have e: "parseVisualCrossingJson doc freq =
           parseVisualCrossingJson (ObjectDocument [(''days'', JArray (before @ after))]) freq"
    using a by (simp add: parse_concat doc_days_single)
  from b c d e show ?thesis by (intro conjI)
qed

lemma irregular_schedule_days:
  "doc_days irregular_schedule =
     [JObject [(''datetime'', JString ''2023-01-01'')],
      JString ''2023-01-02'',
      JObject [(''datetime'', JString ''2023-01-03''),
               (''hours'', JArray [JObject [(''datetime'', JString ''noon''), (''temp'', JString ''warm''),
                                            (''humidity'', JDouble (Finite 55))]])]]"
  by (simp add: doc_days_def irregular_schedule_def doc_object_def at_key_def toArray_def)

theorem day_without_hours_skipped_witness:
  "parseVisualCrossingJson irregular_schedule ''1h'' =
     [\<lparr> datetime = InvalidDateTime, temperature = Finite 0, pressure = Finite 0,
        humidity = Finite 55, windspeed = Finite 0 \<rparr>]"
proof -
  let ?first = "JObject [(''datetime'', JString ''2023-01-01'')]"
  let ?entry = "JObject [(''datetime'', JString ''noon''), (''temp'', JString ''warm''),
                         (''humidity'', JDouble (Finite 55))]"
  let ?third = "JObject [(''datetime'', JString ''2023-01-03''), (''hours'', JArray [?entry])]"
  let ?rest = "[JString ''2023-01-02'', ?third]"
  have a: "\<not> contains (toObject ?first) ''hours''"
    by (simp add: contains_def toObject_def)
  have b: "doc_days irregular_schedule = [] @ ?first # ?rest"
    by (simp add: irregular_schedule_days)
  from day_without_hours_skipped [OF a b, of "''1h''"]
  have out: "parseVisualCrossingJson irregular_schedule ''1h'' =
           concat (map (\<lambda>d. map (\<lambda>h. make_point (day_date d) (hour_entries d ! h))
                                (stride_indices (freq_interval ''1h'') (length (hour_entries d))))
                       ([] @ ?rest))"
    by blast
  have h2: "hour_entries (JString ''2023-01-02'') = []"
    by (simp add: hour_entries_def toObject_def at_key_def toArray_def)
  have h3: "hour_entries ?third = [?entry]"
    by (simp add: hour_entries_def toObject_def at_key_def toArray_def)
  have d3: "day_date ?third = ''2023-01-03''"
    by (simp add: day_date_def toObject_def at_key_def toString_def)
  have inv: "QDateTime_fromString ''2023-01-03 noon'' = InvalidDateTime"
    by (simp add: QDateTime_fromString_def)
  have p: "make_point ''2023-01-03'' ?entry =
     \<lparr> datetime = InvalidDateTime, temperature = Finite 0, pressure = Finite 0,
        humidity = Finite 55, windspeed = Finite 0 \<rparr>"
    by (simp add: make_point_def Let_def toObject_def at_key_def toString_def toDouble_def inv)
  show ?thesis
    unfolding out by (simp add: h2 h3 d3 p stride_indices_def freq_interval_def)
qed

lemma toDouble_default:
  "(\<forall>d. v \<noteq> JDouble d) \<Longrightarrow> toDouble v = Finite 0"
  by (cases v) (simp_all add: toDouble_def)

lemma at_key_absent: "\<not> contains ob k \<Longrightarrow> at_key ob k = JUndefined"
  by (simp add: contains_def at_key_def)

lemma fromString_wrong_length:
  "length s \<noteq> 19 \<Longrightarrow> QDateTime_fromString s = InvalidDateTime"
  by (simp add: QDateTime_fromString_def)

lemma make_point_fields:
  "datetime (make_point date hourV) =
     QDateTime_fromString (date @ '' '' @ toString (at_key (toObject hourV) ''datetime'')) \<and>
   temperature (make_point date hourV) = toDouble (at_key (toObject hourV) ''temp'') \<and>
   pressure (make_point date hourV) = toDouble (at_key (toObject hourV) ''pressure'') \<and>
   humidity (make_point date hourV) = toDouble (at_key (toObject hourV) ''humidity'') \<and>
   windspeed (make_point date hourV) = toDouble (at_key (toObject hourV) ''windspeed'')"
  by (simp add: make_point_def Let_def)

text \<open>
  C8: every selected hourly entry yields exactly one sample, whatever the entry
  holds: the output has one sample per selected position, in order, and the
  sample at output position \<open>n\<close> is built from the entry \<open>hourV\<close> at the
  \<open>n\<close>-th selected position. Each of its four numeric fields is the number
  stored under \<open>temp\<close>, \<open>pressure\<close>, \<open>humidity\<close>, \<open>windspeed\<close>, and zero
  when the key is absent or its value is not a number. Its timestamp is the
  result of reading the date, a space and the time with the layout
  \<open>yyyy-MM-dd HH:mm:ss\<close>; when that text does not parse, the timestamp of the
  sample is the invalid timestamp, and the sample is in the output all the same.
\<close>

theorem extract_sample_defaults:
  assumes "n < length (source_positions doc freq)"
    and "hour = toObject (hour_entries (doc_days doc ! fst (source_positions doc freq ! n))
                            ! snd (source_positions doc freq ! n))"
    and "date = day_date (doc_days doc ! fst (source_positions doc freq ! n))"
    and "p = parseVisualCrossingJson doc freq ! n"
  shows "length (parseVisualCrossingJson doc freq) = length (source_positions doc freq) \<and>
         temperature p = (case at_key hour ''temp'' of JDouble d \<Rightarrow> d | _ \<Rightarrow> Finite 0) \<and>
         pressure p = (case at_key hour ''pressure'' of JDouble d \<Rightarrow> d | _ \<Rightarrow> Finite 0) \<and>
         humidity p = (case at_key hour ''humidity'' of JDouble d \<Rightarrow> d | _ \<Rightarrow> Finite 0) \<and>
         windspeed p = (case at_key hour ''windspeed'' of JDouble d \<Rightarrow> d | _ \<Rightarrow> Finite 0) \<and>
         (\<not> contains hour ''temp'' \<longrightarrow> temperature p = Finite 0) \<and>
         (\<not> contains hour ''pressure'' \<longrightarrow> pressure p = Finite 0) \<and>
         (\<not> contains hour ''humidity'' \<longrightarrow> humidity p = Finite 0) \<and>
         (\<not> contains hour ''windspeed'' \<longrightarrow> windspeed p = Finite 0) \<and>
         datetime p = QDateTime_fromString (date @ '' '' @ toString (at_key hour ''datetime'')) \<and>
         (QDateTime_fromString (date @ '' '' @ toString (at_key hour ''datetime'')) = InvalidDateTime
            \<longrightarrow> datetime p = InvalidDateTime) \<and>
         (length (date @ '' '' @ toString (at_key hour ''datetime'')) \<noteq> 19
            \<longrightarrow> datetime p = InvalidDateTime)"
proof -
  let ?hourV = "hour_entries (doc_days doc ! fst (source_positions doc freq ! n))
                  ! snd (source_positions doc freq ! n)"
  have len: "length (parseVisualCrossingJson doc freq) = length (source_positions doc freq)"
    by (simp add: parse_positions)
  have p: "p = make_point date ?hourV"
    using assms(1) by (simp add: assms(3,4) parse_positions sample_at_def)
  note f = make_point_fields [of date ?hourV, folded p assms(2)]
  have t: "temperature p = (case at_key hour ''temp'' of JDouble d \<Rightarrow> d | _ \<Rightarrow> Finite 0)"
    using f by (simp add: toDouble_def)
  have pr: "pressure p = (case at_key hour ''pressure'' of JDouble d \<Rightarrow> d | _ \<Rightarrow> Finite 0)"
    using f by (simp add: toDouble_def)
  have h: "humidity p = (case at_key hour ''humidity'' of JDouble d \<Rightarrow> d | _ \<Rightarrow> Finite 0)"
    using f by (simp add: toDouble_def)
  have w: "windspeed p = (case at_key hour ''windspeed'' of JDouble d \<Rightarrow> d | _ \<Rightarrow> Finite 0)"
    using f by (simp add: toDouble_def)
  have t0: "\<not> contains hour ''temp'' \<longrightarrow> temperature p = Finite 0"
    by (simp add: t at_key_absent)
  have pr0: "\<not> contains hour ''pressure'' \<longrightarrow> pressure p = Finite 0"
    by (simp add: pr at_key_absent)
  have h0: "\<not> contains hour ''humidity'' \<longrightarrow> humidity p = Finite 0"
    by (simp add: h at_key_absent)
  have w0: "\<not> contains hour ''windspeed'' \<longrightarrow> windspeed p = Finite 0"
    by (simp add: w at_key_absent)
  have dt: "datetime p = QDateTime_fromString (date @ '' '' @ toString (at_key hour ''datetime''))"
    using f by simp
  have inv: "QDateTime_fromString (date @ '' '' @ toString (at_key hour ''datetime'')) = InvalidDateTime
            \<longrightarrow> datetime p = InvalidDateTime"
    by (simp add: dt)
  have inv2: "length (date @ '' '' @ toString (at_key hour ''datetime'')) \<noteq> 19
            \<longrightarrow> datetime p = InvalidDateTime"
    using fromString_wrong_length [of "date @ '' '' @ toString (at_key hour ''datetime'')"]
    by (simp add: dt)
  from len t pr h w t0 pr0 h0 w0 dt inv inv2 show ?thesis by (intro conjI)
qed

lemma irregular_schedule_positions:
  "source_positions irregular_schedule ''1h'' = [(2, 0)]"
  by (simp add: source_positions_def irregular_schedule_days hour_entries_def toObject_def
        at_key_def toArray_def stride_indices_def freq_interval_def)

lemma irregular_schedule_entry:
  "toObject (hour_entries (doc_days irregular_schedule ! 2) ! 0) =
     [(''datetime'', JString ''noon''), (''temp'', JString ''warm''), (''humidity'', JDouble (Finite 55))]"
  by (simp add: irregular_schedule_days hour_entries_def toObject_def at_key_def toArray_def)

lemma irregular_schedule_date:
  "day_date (doc_days irregular_schedule ! 2) = ''2023-01-03''"
  by (simp add: irregular_schedule_days day_date_def toObject_def at_key_def toString_def)

theorem extract_sample_defaults_witness:
  "length (parseVisualCrossingJson irregular_schedule ''1h'') = 1 \<and>
   datetime (parseVisualCrossingJson irregular_schedule ''1h'' ! 0) = InvalidDateTime \<and>
   temperature (parseVisualCrossingJson irregular_schedule ''1h'' ! 0) = Finite 0 \<and>
   pressure (parseVisualCrossingJson irregular_schedule ''1h'' ! 0) = Finite 0 \<and>
   humidity (parseVisualCrossingJson irregular_schedule ''1h'' ! 0) = Finite 55 \<and>
   windspeed (parseVisualCrossingJson irregular_schedule ''1h'' ! 0) = Finite 0"
proof -
  have n: "0 < length (source_positions irregular_schedule ''1h'')"
    by (simp add: irregular_schedule_positions)
  have hour: "[(''datetime'', JString ''noon''), (''temp'', JString ''warm''),
               (''humidity'', JDouble (Finite 55))] =
      toObject (hour_entries (doc_days irregular_schedule
                    ! fst (source_positions irregular_schedule ''1h'' ! 0))
                  ! snd (source_positions irregular_schedule ''1h'' ! 0))"
    by (simp add: irregular_schedule_positions irregular_schedule_entry)
  have date: "''2023-01-03'' =
      day_date (doc_days irregular_schedule ! fst (source_positions irregular_schedule ''1h'' ! 0))"
    by (simp add: irregular_schedule_positions irregular_schedule_date)
  have inv: "QDateTime_fromString ''2023-01-03 noon'' = InvalidDateTime"
    by (simp add: QDateTime_fromString_def)
  from extract_sample_defaults [OF n hour date refl]
  show ?thesis
    by (simp add: irregular_schedule_positions at_key_def contains_def toString_def inv)
qed

section \<open>Properties of rounding\<close>

lemma round_half_even_of_int: "round_half_even (of_int n) = n"
  by (simp add: round_half_even_def)

lemma round_half_even_bounds:
  "\<lfloor>x\<rfloor> \<le> round_half_even x \<and> round_half_even x \<le> \<lfloor>x\<rfloor> + 1"
  by (simp add: round_half_even_def Let_def)

lemma round_half_even_error: "\<bar>of_int (round_half_even x) - x\<bar> \<le> 1 / 2"
proof -
  have "of_int \<lfloor>x\<rfloor> \<le> x" "x < of_int \<lfloor>x\<rfloor> + 1" by linarith+
  then show ?thesis
    by (auto simp: round_half_even_def Let_def abs_le_iff)
qed

lemma bitlen_upper:
  fixes s :: real
  assumes "0 \<le> s"
  shows "s < 2 ^ nat (bitlen \<lfloor>s\<rfloor>)"
proof (cases "0 < \<lfloor>s\<rfloor>")
  case True
  from bitlen_bounds [OF True] have "\<lfloor>s\<rfloor> < 2 ^ nat (bitlen \<lfloor>s\<rfloor>)" by simp
  then have "\<lfloor>s\<rfloor> + 1 \<le> 2 ^ nat (bitlen \<lfloor>s\<rfloor>)" by simp
  then have "of_int (\<lfloor>s\<rfloor> + 1) \<le> (of_int (2 ^ nat (bitlen \<lfloor>s\<rfloor>)) :: real)"
    by (simp only: of_int_le_iff)
  then have "real_of_int \<lfloor>s\<rfloor> + 1 \<le> 2 ^ nat (bitlen \<lfloor>s\<rfloor>)" by simp
  moreover have "s < real_of_int \<lfloor>s\<rfloor> + 1" by linarith
  ultimately show ?thesis by linarith
next
  case False
  with assms have "\<lfloor>s\<rfloor> = 0" by (simp add: floor_le_iff not_less order_antisym)
  then have "s < 1" using floor_correct [of s] by simp
  moreover have "(1::real) \<le> 2 ^ nat (bitlen \<lfloor>s\<rfloor>)" by simp
  ultimately show ?thesis by linarith
qed

lemma bitlen_lower:
  fixes s :: real
  assumes "0 < bitlen \<lfloor>s\<rfloor>"
  shows "2 ^ nat (bitlen \<lfloor>s\<rfloor> - 1) \<le> s"
proof -
  have pos: "0 < \<lfloor>s\<rfloor>"
  proof (rule ccontr)
    assume "\<not> 0 < \<lfloor>s\<rfloor>"
    then have "nat \<lfloor>s\<rfloor> = 0" by simp
    then have "bitlen \<lfloor>s\<rfloor> = 0" by (simp add: bitlen_def floorlog_eq_zero_iff)
    with assms show False by simp
  qed
  from bitlen_bounds [OF pos] have "2 ^ nat (bitlen \<lfloor>s\<rfloor> - 1) \<le> \<lfloor>s\<rfloor>" by simp
  then have "(of_int (2 ^ nat (bitlen \<lfloor>s\<rfloor> - 1)) :: real) \<le> of_int \<lfloor>s\<rfloor>"
    by (simp only: of_int_le_iff)
  then have "2 ^ nat (bitlen \<lfloor>s\<rfloor> - 1) \<le> real_of_int \<lfloor>s\<rfloor>" by simp
  moreover have "real_of_int \<lfloor>s\<rfloor> \<le> s" by linarith
  ultimately show ?thesis by linarith
qed


lemma round_magnitude_parts:
  fixes a :: real
  assumes "0 \<le> a"
  obtains m j :: nat where "round_magnitude a = real m * 2 ^ j / 2 ^ 1074"
    and "m \<le> 2 ^ 53"
    and "\<bar>real m - a * 2 ^ 1074 / 2 ^ j\<bar> \<le> 1 / 2"
    and "j = 0 \<or> 2 ^ j * 2 ^ 52 \<le> a * 2 ^ 1074"
    and "a * 2 ^ 1074 < 2 ^ (j + 53)"
proof -
  define P :: real where "P = 2 ^ 1074"
  define s where "s = a * P"
  define k where "k = nat (bitlen \<lfloor>s\<rfloor>)"
  define j where "j = nat (bitlen \<lfloor>s\<rfloor> - 53)"
  define mi where "mi = round_half_even (s / 2 ^ j)"
  have P: "0 < P" by (simp add: P_def)
  have s0: "0 \<le> s" using P assms by (simp add: s_def)
  have rm: "round_magnitude a = of_int mi * 2 ^ j / P"
    unfolding round_magnitude_def Let_def mi_def j_def s_def P_def ..
  have kj: "k \<le> j + 53" by (simp add: k_def j_def)
  have "s < 2 ^ k" unfolding k_def by (rule bitlen_upper [OF s0])
  also have "\<dots> \<le> (2::real) ^ (j + 53)" using kj by (intro power_increasing) simp_all
  finally have upper: "s < 2 ^ (j + 53)" .
  then have "s / 2 ^ j < 2 ^ 53" by (simp add: power_add field_simps)
  then have "\<lfloor>s / 2 ^ j\<rfloor> < 2 ^ 53" by (simp add: floor_less_iff)
  with round_half_even_bounds [of "s / 2 ^ j"] have mi_le: "mi \<le> 2 ^ 53"
    unfolding mi_def by linarith
  have "0 \<le> s / 2 ^ j" using s0 by simp
  then have "0 \<le> \<lfloor>s / 2 ^ j\<rfloor>" by (simp only: zero_le_floor)
  with round_half_even_bounds [of "s / 2 ^ j"] have mi0: "0 \<le> mi"
    unfolding mi_def by linarith
  define m where "m = nat mi"
  have mi: "mi = int m" using mi0 by (simp add: m_def)
  show thesis
  proof (rule that [of m j])
    show "round_magnitude a = real m * 2 ^ j / 2 ^ 1074" by (simp add: rm mi P_def)
    show "m \<le> 2 ^ 53" using mi_le mi0 by (simp add: m_def nat_le_iff)
    have "\<bar>real_of_int mi - s / 2 ^ j\<bar> \<le> 1 / 2"
      unfolding mi_def by (rule round_half_even_error)
    then show "\<bar>real m - a * 2 ^ 1074 / 2 ^ j\<bar> \<le> 1 / 2" by (simp add: mi s_def P_def)
    show "j = 0 \<or> 2 ^ j * 2 ^ 52 \<le> a * 2 ^ 1074"
    proof (cases "j = 0")
      case True
      then show ?thesis by simp
    next
      case False
      then have b: "53 < bitlen \<lfloor>s\<rfloor>" by (simp add: j_def)
      then have "0 < bitlen \<lfloor>s\<rfloor>" by simp
      from bitlen_lower [OF this] have "2 ^ nat (bitlen \<lfloor>s\<rfloor> - 1) \<le> s" .
      moreover have "nat (bitlen \<lfloor>s\<rfloor> - 1) = j + 52" using b by (simp add: j_def)
      ultimately have "2 ^ (j + 52) \<le> s" by simp
      then show ?thesis by (simp add: power_add s_def P_def)
    qed
    show "a * 2 ^ 1074 < 2 ^ (j + 53)" using upper by (simp only: s_def P_def)
  qed
qed

lemma round_magnitude_exact:
  fixes a :: real and M j :: nat
  assumes S: "a * 2 ^ 1074 = real (M * 2 ^ j)" and M: "M \<le> 2 ^ 53"
  shows "round_magnitude a = a"
proof -
  define P :: real where "P = 2 ^ 1074"
  define S where "S = M * 2 ^ j"
  define k where "k = floorlog 2 S"
  define j0 where "j0 = k - 53"
  have P: "0 < P" by (simp add: P_def)
  have sP: "a * P = real S" using S by (simp only: P_def S_def)
  have fl: "\<lfloor>a * P\<rfloor> = int S" by (simp only: sP floor_of_nat)
  have bl: "bitlen (int S) = int k" by (simp add: bitlen_def k_def)
  have j0': "nat (bitlen \<lfloor>a * P\<rfloor> - 53) = j0" by (simp add: fl bl j0_def)
  have dvd: "2 ^ j0 dvd S"
  proof (cases "j0 \<le> j")
    case True
    then have "(2::nat) ^ j0 dvd 2 ^ j" by (rule le_imp_power_dvd)
    then show ?thesis unfolding S_def by (rule dvd_mult)
  next
    case False
    have "M * 2 ^ j \<le> 2 ^ 53 * 2 ^ j" using M by simp
    also have "\<dots> < (2::nat) ^ 54 * 2 ^ j" by simp
    finally have "S < 2 ^ (54 + j)" by (simp add: S_def power_add)
    then have "k \<le> 54 + j" unfolding k_def by (intro floorlog_leI) simp_all
    with False have k: "k = 54 + j" and j0: "j0 = Suc j" by (simp_all add: j0_def)
    have "0 < S" using k by (cases "S = 0") (simp_all add: k_def floorlog_def)
    from floorlog_bounds [OF this, of 2] have "2 ^ (53 + j) \<le> S" by (simp add: k_def [symmetric] k)
    then have "(2::nat) ^ 53 * 2 ^ j \<le> M * 2 ^ j" by (simp add: S_def power_add)
    then have "2 ^ 53 \<le> M" by simp
    with M have "M = 2 ^ 53" by simp
    then have "S = 2 ^ Suc j * 2 ^ 52" by (simp add: S_def)
    then show ?thesis unfolding j0 by simp
  qed
  then obtain q where q: "S = 2 ^ j0 * q" ..
  have quot: "a * P / 2 ^ j0 = real_of_int (int q)"
    by (simp add: sP q)
  have m: "round_half_even (a * P / 2 ^ j0) = int q"
    by (simp only: quot round_half_even_of_int)
  have "real_of_int (int q) * 2 ^ j0 = a * P" by (simp add: sP q)
  then have v: "real_of_int (int q) * 2 ^ j0 / P = a" using P by (simp add: field_simps)
  show ?thesis
    unfolding round_magnitude_def Let_def P_def [symmetric] j0' m v ..
qed

lemma round_double_exact:
  fixes r :: real and M j :: nat
  assumes S: "\<bar>r\<bar> * 2 ^ 1074 = real (M * 2 ^ j)" and M: "M \<le> 2 ^ 53"
    and r: "\<bar>r\<bar> < 2 ^ 1024"
  shows "round_double r = Finite r"
proof -
  have v: "round_magnitude \<bar>r\<bar> = \<bar>r\<bar>" using S M by (rule round_magnitude_exact)
  have nov: "\<not> 2 ^ 1024 \<le> \<bar>r\<bar>" using r by simp
  have "round_double r = Finite (sgn r * \<bar>r\<bar>)"
    unfolding round_double_def Let_def v by (simp only: nov if_False)
  then show ?thesis by (simp only: sgn_mult_abs)
qed

lemma round_double_of_int:
  assumes "\<bar>n\<bar> \<le> 2 ^ 53"
  shows "round_double (of_int n) = Finite (of_int n)"
proof (rule round_double_exact [where M = "nat \<bar>n\<bar>" and j = 1074])
  show "\<bar>real_of_int n\<bar> * 2 ^ 1074 = real (nat \<bar>n\<bar> * 2 ^ 1074)" by simp
  show "nat \<bar>n\<bar> \<le> 2 ^ 53" using assms by (simp add: nat_le_iff)
  have "\<bar>real_of_int n\<bar> \<le> 2 ^ 53" using assms by (metis of_int_abs of_int_le_iff of_int_numeral of_int_power)
  also have "\<dots> < (2::real) ^ 1024" by (rule power_strict_increasing) simp_all
  finally show "\<bar>real_of_int n\<bar> < 2 ^ 1024" .
qed

lemma round_double_0: "round_double 0 = Finite 0"
  using round_double_of_int [of 0] by simp

lemma round_double_FiniteE:
  assumes "round_double r = Finite x"
  obtains m j :: nat where "\<bar>x\<bar> * 2 ^ 1074 = real (m * 2 ^ j)" and "m \<le> 2 ^ 53"
    and "\<bar>x\<bar> < 2 ^ 1024" and "x = sgn r * (real m * 2 ^ j / 2 ^ 1074)"
    and "j = 0 \<or> 2 ^ j * 2 ^ 52 \<le> \<bar>r\<bar> * 2 ^ 1074"
    and "\<bar>r\<bar> * 2 ^ 1074 < 2 ^ (j + 53)"
proof -
  define P :: real where "P = 2 ^ 1074"
  define v where "v = round_magnitude \<bar>r\<bar>"
  have P: "0 < P" by (simp add: P_def)
  have rd: "round_double r = (if 2 ^ 1024 \<le> v then (if 0 < r then PosInf else NegInf)
                              else Finite (sgn r * v))"
    unfolding round_double_def Let_def v_def ..
  from assms rd have nov: "v < 2 ^ 1024" and x: "x = sgn r * v"
    by (auto split: if_splits)
  obtain m j :: nat where v': "v = real m * 2 ^ j / P" and m: "m \<le> 2 ^ 53"
    and j: "j = 0 \<or> 2 ^ j * 2 ^ 52 \<le> \<bar>r\<bar> * 2 ^ 1074"
    and u: "\<bar>r\<bar> * 2 ^ 1074 < 2 ^ (j + 53)"
    unfolding v_def P_def by (rule round_magnitude_parts [of "\<bar>r\<bar>"]) simp_all
  have v0: "0 \<le> v" using P by (simp add: v')
  have absx: "\<bar>x\<bar> = \<bar>sgn r\<bar> * v" using v0 by (simp add: x abs_mult)
  show thesis
  proof (cases "r = 0")
    case True
    then have x0: "x = 0" by (simp add: x)
    show thesis
    proof (rule that [of 0 0])
      show "\<bar>x\<bar> * 2 ^ 1074 = real (0 * 2 ^ 0)" by (simp add: x0)
      show "(0::nat) \<le> 2 ^ 53" by simp
      show "\<bar>x\<bar> < 2 ^ 1024" by (simp add: x0)
      show "x = sgn r * (real 0 * 2 ^ 0 / 2 ^ 1074)" by (simp add: x0)
      show "(0::nat) = 0 \<or> 2 ^ 0 * 2 ^ 52 \<le> \<bar>r\<bar> * 2 ^ 1074" by simp
      show "\<bar>r\<bar> * 2 ^ 1074 < 2 ^ (0 + 53)" by (simp add: True)
    qed
  next
    case False
    then have "\<bar>sgn r\<bar> = 1" by (simp add: abs_sgn_eq)
    with absx have ax: "\<bar>x\<bar> = v" by simp
    show thesis
    proof (rule that [of m j])
      have "v * P = real m * 2 ^ j" using P by (simp add: v')
      then show "\<bar>x\<bar> * 2 ^ 1074 = real (m * 2 ^ j)" by (simp add: ax P_def)
      show "m \<le> 2 ^ 53" by (rule m)
      show "\<bar>x\<bar> < 2 ^ 1024" using nov by (simp add: ax)
      show "x = sgn r * (real m * 2 ^ j / 2 ^ 1074)" by (simp add: x v' P_def)
      show "j = 0 \<or> 2 ^ j * 2 ^ 52 \<le> \<bar>r\<bar> * 2 ^ 1074" by (rule j)
      show "\<bar>r\<bar> * 2 ^ 1074 < 2 ^ (j + 53)" by (rule u)
    qed
  qed
qed

lemma round_double_idem:
  assumes "round_double r = Finite x"
  shows "round_double x = Finite x"
proof -
  from assms obtain m j :: nat where "\<bar>x\<bar> * 2 ^ 1074 = real (m * 2 ^ j)" "m \<le> 2 ^ 53"
    "\<bar>x\<bar> < 2 ^ 1024"
    by (rule round_double_FiniteE)
  then show ?thesis by (rule round_double_exact)
qed




lemma round_double_of_int_Ints:
  assumes "round_double (of_int n) = Finite x"
  shows "\<exists>z. x = of_int z"
proof (cases "\<bar>n\<bar> \<le> 2 ^ 53")
  case True
  from round_double_of_int [OF True] assms have "x = of_int n" by simp
  then show ?thesis ..
next
  case False
  then have big: "(2::real) ^ 53 \<le> \<bar>of_int n\<bar>"
    by (metis less_imp_le not_le of_int_abs of_int_le_iff of_int_numeral of_int_power)
  from assms obtain m j :: nat where x: "x = sgn (real_of_int n) * (real m * 2 ^ j / 2 ^ 1074)"
    and u: "\<bar>real_of_int n\<bar> * 2 ^ 1074 < 2 ^ (j + 53)"
    by (rule round_double_FiniteE)
  have "(2::real) ^ 53 * 2 ^ 1074 \<le> \<bar>real_of_int n\<bar> * 2 ^ 1074"
    using big by (intro mult_right_mono) simp_all
  with u have "(2::real) ^ (1074 + 53) < 2 ^ (j + 53)" by (simp add: power_add mult.commute)
  then have "1074 + 53 < j + 53" by (simp only: power_strict_increasing_iff one_less_numeral_iff semiring_norm)
  then obtain d where j: "j = 1074 + d" by (metis add_less_cancel_right less_imp_add_positive)
  have "real m * 2 ^ j / 2 ^ 1074 = real m * 2 ^ d" by (simp add: j power_add)
  also have "\<dots> = of_int (int m * 2 ^ d)" by simp
  finally have v: "real m * 2 ^ j / 2 ^ 1074 = of_int (int m * 2 ^ d)" .
  have "sgn (real_of_int n) = of_int (sgn n)" by (simp add: sgn_real_def sgn_if)
  then have "x = of_int (sgn n * (int m * 2 ^ d))" unfolding x v by simp
  then show ?thesis ..
qed


lemma round_double_numeral:
  "(numeral k :: int) \<le> 2 ^ 53 \<Longrightarrow> round_double (numeral k) = Finite (numeral k)"
  using round_double_of_int [of "numeral k"] by simp

lemma round_double_neg_numeral:
  "(numeral k :: int) \<le> 2 ^ 53 \<Longrightarrow> round_double (- numeral k) = Finite (- numeral k)"
  using round_double_of_int [of "- numeral k"] by simp

lemma round_double_1: "round_double 1 = Finite 1"
  using round_double_of_int [of 1] by simp

lemmas round_double_small = round_double_0 round_double_1 round_double_numeral
  round_double_neg_numeral

lemma is_double_of_int: "\<bar>n\<bar> \<le> 2 ^ 53 \<Longrightarrow> is_double (of_int n)"
  unfolding is_double_def by (rule round_double_of_int)

lemma is_double_round: "round_double r = Finite x \<Longrightarrow> is_double x"
  unfolding is_double_def by (rule round_double_idem)

section \<open>Properties of the line chart\<close>

lemma to_qint64_of_int:
  assumes "to_qint64 (Finite (of_int z)) \<noteq> None"
  shows "to_qint64 (Finite (of_int z)) = Some z"
proof -
  have "(if (0::real) \<le> of_int z then \<lfloor>of_int z :: real\<rfloor> else \<lceil>of_int z :: real\<rceil>) = z"
    by simp
  with assms show ?thesis
    by (simp add: to_qint64_def Let_def split: if_splits)
qed

lemma timestamp_whole:
  assumes "to_qint64 (px pt) \<noteq> None" and "px pt = of_qint64 ms"
  shows "of_qint64 (timestamp pt) = px pt"
proof -
  from assms(1) obtain x where x: "px pt = Finite x"
    by (cases "px pt") (simp_all add: to_qint64_def)
  with assms(2) have r: "round_double (of_int ms) = Finite x" by (simp add: of_qint64_def)
  then obtain z where z: "x = of_int z" using round_double_of_int_Ints by blast
  from assms(1) have "to_qint64 (px pt) = Some z"
    unfolding x z by (rule to_qint64_of_int)
  then have "timestamp pt = z" by (simp add: timestamp_def)
  moreover from round_double_idem [OF r] have "round_double (of_int z) = Finite x" by (simp add: z)
  ultimately show ?thesis by (simp add: of_qint64_def x)
qed

lemma collect_defined:
  assumes "\<forall>pt \<in> set xys. to_qint64 (px pt) \<noteq> None"
  shows "collect xys (pts, dts, vs) =
           Some (pts @ map (\<lambda>pt. QPointF (of_qint64 (timestamp pt)) (py pt)) xys,
                 dts @ map timestamp xys, vs @ map py xys)"
  using assms
proof (induction xys arbitrary: pts dts vs)
  case Nil
  show ?case by simp
next
  case (Cons pt xys)
  from Cons.prems obtain ms where ms: "to_qint64 (px pt) = Some ms" by auto
  then have t: "timestamp pt = ms" by (simp add: timestamp_def)
  from Cons.prems have rest: "\<forall>pt \<in> set xys. to_qint64 (px pt) \<noteq> None" by simp
  show ?case by (simp add: ms t Let_def Cons.IH [OF rest])
qed

lemma plotLineStat_series:
  assumes "\<forall>pt \<in> set xys. to_qint64 (px pt) \<noteq> None"
  shows "\<exists>chart. plotLineStat xys name color showDeviation freq = Some chart \<and>
     series chart =
       [\<lparr> series_name = name, series_color = color,
           points = map (\<lambda>pt. QPointF (of_qint64 (timestamp pt)) (py pt)) xys \<rparr>,
        \<lparr> series_name = name_mean, series_color = Qt_red,
           points = map (\<lambda>pt. QPointF (of_qint64 (timestamp pt)) (mean_of (map py xys))) xys \<rparr>] @
       (if showDeviation \<and> dgreater (stddev_of (map py xys)) (Finite 0)
        then [\<lparr> series_name = name_upper, series_color = Qt_gray,
                 points = map (\<lambda>pt. QPointF (of_qint64 (timestamp pt))
                                        (dadd (py pt) (stddev_of (map py xys)))) xys \<rparr>,
              \<lparr> series_name = name_lower, series_color = Qt_gray,
                 points = map (\<lambda>pt. QPointF (of_qint64 (timestamp pt))
                                        (dsub (py pt) (stddev_of (map py xys)))) xys \<rparr>]
        else [])"
proof -
  have c: "collect xys ([], [], []) =
      Some (map (\<lambda>pt. QPointF (of_qint64 (timestamp pt)) (py pt)) xys, map timestamp xys, map py xys)"
    using collect_defined [OF assms, of "[]" "[]" "[]"] by simp
  have m: "map (\<lambda>i. QPointF (of_qint64 (map timestamp xys ! i)) (mean_of (map py xys)))
             [0..<length (map timestamp xys)] =
           map (\<lambda>pt. QPointF (of_qint64 (timestamp pt)) (mean_of (map py xys))) xys"
    by (rule nth_equalityI) simp_all
  have u: "map (\<lambda>i. QPointF (of_qint64 (map timestamp xys ! i))
                         (dadd (map py xys ! i) (stddev_of (map py xys))))
             [0..<length (map timestamp xys)] =
           map (\<lambda>pt. QPointF (of_qint64 (timestamp pt))
                          (dadd (py pt) (stddev_of (map py xys)))) xys"
    by (rule nth_equalityI) simp_all
  have l: "map (\<lambda>i. QPointF (of_qint64 (map timestamp xys ! i))
                         (dsub (map py xys ! i) (stddev_of (map py xys))))
             [0..<length (map timestamp xys)] =
           map (\<lambda>pt. QPointF (of_qint64 (timestamp pt))
                          (dsub (py pt) (stddev_of (map py xys)))) xys"
    by (rule nth_equalityI) simp_all
  show ?thesis
    unfolding plotLineStat_def c Let_def option.case prod.case m u l by simp
qed


lemma plotLineStat_undefined:
  assumes "\<exists>pt \<in> set xys. to_qint64 (px pt) = None"
  shows "plotLineStat xys name color showDeviation freq = None"
proof -
  have "collect xys acc = None" for acc
    using assms
  proof (induction xys arbitrary: acc)
    case Nil
    then show ?case by simp
  next
    case (Cons pt xys)
    obtain pts dts vs where acc: "acc = (pts, dts, vs)" by (cases acc) auto
    show ?case
    proof (cases "to_qint64 (px pt)")
      case None
      then show ?thesis by (simp add: acc)
    next
      case (Some ms)
      with Cons.prems have "\<exists>pt \<in> set xys. to_qint64 (px pt) = None" by auto
      from Cons.IH [OF this] show ?thesis by (simp add: acc Some Let_def)
    qed
  qed
  then show ?thesis by (simp add: plotLineStat_def)
qed








lemma round_double_neg_1: "round_double (- 1) = Finite (- 1)"
  using round_double_of_int [of "- 1"] by simp

















lemma two_samples_casts: "\<forall>pt \<in> set two_samples. to_qint64 (px pt) \<noteq> None"
  by (simp add: two_samples_def to_qint64_def)

lemma two_samples_mean: "mean_of (map py two_samples) = Finite 2"
  by (simp add: two_samples_def mean_of_def of_qint64_def round_double_small)

lemma two_samples_stddev: "stddev_of (map py two_samples) = Finite 1"
  by (simp add: stddev_of_def two_samples_mean)
     (simp add: two_samples_def of_qint64_def dsub_def round_double_small round_double_neg_1)

lemma constant_series_casts: "\<forall>pt \<in> set constant_series. to_qint64 (px pt) \<noteq> None"
  by (simp add: constant_series_def to_qint64_def)

lemma constant_series_mean: "mean_of (map py constant_series) = Finite 5"
  by (simp add: constant_series_def mean_of_def of_qint64_def round_double_small)

lemma constant_series_stddev: "stddev_of (map py constant_series) = Finite 0"
  by (simp add: stddev_of_def constant_series_mean)
     (simp add: constant_series_def of_qint64_def dsub_def round_double_small)

text \<open>
  C3: when the band is drawn (deviation display is requested and the deviation
  is positive), the chart has four series, and the third and the fourth, named
  \<open>+sigma\<close> and \<open>-sigma\<close>, pair the timestamp of each sample with the value of
  that same sample plus, respectively minus, the standard deviation of the
  series: the band follows the samples and is not centred on the mean. The
  timestamp of a sample is the x coordinate cut to whole milliseconds; an x
  coordinate that was made from a whole number of milliseconds, as the caller
  makes it, is kept as it is.
\<close>

theorem deviation_band_per_point:
  assumes "\<forall>pt \<in> set xys. to_qint64 (px pt) \<noteq> None"
    and "dgreater (stddev_of (map py xys)) (Finite 0)"
  shows "\<exists>chart. plotLineStat xys name color True freq = Some chart \<and>
     length (series chart) = 4 \<and>
     series_name (series chart ! 2) = name_upper \<and>
     points (series chart ! 2) =
       map (\<lambda>pt. QPointF (of_qint64 (timestamp pt)) (dadd (py pt) (stddev_of (map py xys)))) xys \<and>
     series_name (series chart ! 3) = name_lower \<and>
     points (series chart ! 3) =
       map (\<lambda>pt. QPointF (of_qint64 (timestamp pt)) (dsub (py pt) (stddev_of (map py xys)))) xys \<and>
     (\<forall>pt \<in> set xys. \<forall>ms. px pt = of_qint64 ms \<longrightarrow> of_qint64 (timestamp pt) = px pt)"
proof -
  from plotLineStat_series [OF assms(1), of name color True freq] assms(2)
  obtain chart where c: "plotLineStat xys name color True freq = Some chart"
    and s: "series chart =
       [\<lparr> series_name = name, series_color = color,
           points = map (\<lambda>pt. QPointF (of_qint64 (timestamp pt)) (py pt)) xys \<rparr>,
        \<lparr> series_name = name_mean, series_color = Qt_red,
           points = map (\<lambda>pt. QPointF (of_qint64 (timestamp pt)) (mean_of (map py xys))) xys \<rparr>,
        \<lparr> series_name = name_upper, series_color = Qt_gray,
                 points = map (\<lambda>pt. QPointF (of_qint64 (timestamp pt))
                                        (dadd (py pt) (stddev_of (map py xys)))) xys \<rparr>,
        \<lparr> series_name = name_lower, series_color = Qt_gray,
                 points = map (\<lambda>pt. QPointF (of_qint64 (timestamp pt))
                                        (dsub (py pt) (stddev_of (map py xys)))) xys \<rparr>]"
    by auto
  have whole: "\<forall>pt \<in> set xys. \<forall>ms. px pt = of_qint64 ms \<longrightarrow> of_qint64 (timestamp pt) = px pt"
    using assms(1) timestamp_whole by blast
  have "length (series chart) = 4 \<and>
     series_name (series chart ! 2) = name_upper \<and>
     points (series chart ! 2) =
       map (\<lambda>pt. QPointF (of_qint64 (timestamp pt)) (dadd (py pt) (stddev_of (map py xys)))) xys \<and>
     series_name (series chart ! 3) = name_lower \<and>
     points (series chart ! 3) =
       map (\<lambda>pt. QPointF (of_qint64 (timestamp pt)) (dsub (py pt) (stddev_of (map py xys)))) xys"
    unfolding s by simp
  with c whole show ?thesis by blast
qed

theorem deviation_band_per_point_witness:
  "\<exists>chart. plotLineStat two_samples ''t'' Qt_blue True ''1h'' = Some chart \<and>
     points (series chart ! 2) =
       [QPointF (Finite 0) (Finite 2), QPointF (Finite 3600000) (Finite 4)] \<and>
     points (series chart ! 3) =
       [QPointF (Finite 0) (Finite 0), QPointF (Finite 3600000) (Finite 2)]"
proof -
  have pos: "dgreater (stddev_of (map py two_samples)) (Finite 0)"
    by (simp add: two_samples_stddev dgreater_def)
  from deviation_band_per_point [OF two_samples_casts pos, of "''t''" Qt_blue "''1h''"]
  obtain chart where c: "plotLineStat two_samples ''t'' Qt_blue True ''1h'' = Some chart"
    and u: "points (series chart ! 2) =
       map (\<lambda>pt. QPointF (of_qint64 (timestamp pt)) (dadd (py pt) (stddev_of (map py two_samples))))
           two_samples"
    and l: "points (series chart ! 3) =
       map (\<lambda>pt. QPointF (of_qint64 (timestamp pt)) (dsub (py pt) (stddev_of (map py two_samples))))
           two_samples"
    by blast
  have ts: "of_qint64 (timestamp (QPointF (Finite 0) (Finite 1))) = Finite 0"
    "of_qint64 (timestamp (QPointF (Finite 3600000) (Finite 3))) = Finite 3600000"
    by (simp_all add: timestamp_def to_qint64_def of_qint64_def round_double_small)
  have u': "points (series chart ! 2) =
       [QPointF (Finite 0) (Finite 2), QPointF (Finite 3600000) (Finite 4)]"
    unfolding u two_samples_stddev by (simp add: two_samples_def ts round_double_small)
  have l': "points (series chart ! 3) =
       [QPointF (Finite 0) (Finite 0), QPointF (Finite 3600000) (Finite 2)]"
    unfolding l two_samples_stddev by (simp add: two_samples_def ts dsub_def round_double_small)
  from c u' l' show ?thesis by blast
qed

text \<open>
  C9: the chart always holds the main series and the mean series; the two band
  series follow them if and only if deviation display is requested and the
  standard deviation is greater than zero. With a standard deviation of zero (or
  one that is NaN) no band series is emitted, and the chart is produced all
  the same.
\<close>

theorem deviation_band_iff:
  assumes "\<forall>pt \<in> set xys. to_qint64 (px pt) \<noteq> None"
  shows "\<exists>chart. plotLineStat xys name color showDeviation freq = Some chart \<and>
     map series_name (take 2 (series chart)) = [name, name_mean] \<and>
     (map series_name (drop 2 (series chart)) = [name_upper, name_lower]
        \<longleftrightarrow> showDeviation \<and> dgreater (stddev_of (map py xys)) (Finite 0)) \<and>
     (drop 2 (series chart) = []
        \<longleftrightarrow> \<not> (showDeviation \<and> dgreater (stddev_of (map py xys)) (Finite 0))) \<and>
     (stddev_of (map py xys) = Finite 0 \<longrightarrow> length (series chart) = 2)"
proof -
  from plotLineStat_series [OF assms, of name color showDeviation freq]
  obtain chart where c: "plotLineStat xys name color showDeviation freq = Some chart"
    and s: "series chart =
       [\<lparr> series_name = name, series_color = color,
           points = map (\<lambda>pt. QPointF (of_qint64 (timestamp pt)) (py pt)) xys \<rparr>,
        \<lparr> series_name = name_mean, series_color = Qt_red,
           points = map (\<lambda>pt. QPointF (of_qint64 (timestamp pt)) (mean_of (map py xys))) xys \<rparr>] @
       (if showDeviation \<and> dgreater (stddev_of (map py xys)) (Finite 0)
        then [\<lparr> series_name = name_upper, series_color = Qt_gray,
                 points = map (\<lambda>pt. QPointF (of_qint64 (timestamp pt))
                                        (dadd (py pt) (stddev_of (map py xys)))) xys \<rparr>,
              \<lparr> series_name = name_lower, series_color = Qt_gray,
                 points = map (\<lambda>pt. QPointF (of_qint64 (timestamp pt))
                                        (dsub (py pt) (stddev_of (map py xys)))) xys \<rparr>]
        else [])"
    by blast
  have zero: "stddev_of (map py xys) = Finite 0 \<Longrightarrow>
                \<not> dgreater (stddev_of (map py xys)) (Finite 0)"
    by (simp add: dgreater_def)
  have p: "map series_name (take 2 (series chart)) = [name, name_mean] \<and>
     (map series_name (drop 2 (series chart)) = [name_upper, name_lower]
        \<longleftrightarrow> showDeviation \<and> dgreater (stddev_of (map py xys)) (Finite 0)) \<and>
     (drop 2 (series chart) = []
        \<longleftrightarrow> \<not> (showDeviation \<and> dgreater (stddev_of (map py xys)) (Finite 0))) \<and>
     (stddev_of (map py xys) = Finite 0 \<longrightarrow> length (series chart) = 2)"
    unfolding s using zero by simp
  show ?thesis
    by (rule exI [of _ chart]) (rule conjI [OF c p])
qed

theorem deviation_band_iff_witness:
  "(\<exists>chart. plotLineStat two_samples ''t'' Qt_blue True ''1h'' = Some chart \<and>
      map series_name (drop 2 (series chart)) = [name_upper, name_lower]) \<and>
   (\<exists>chart. plotLineStat two_samples ''t'' Qt_blue False ''1h'' = Some chart \<and>
      drop 2 (series chart) = []) \<and>
   (\<exists>chart. plotLineStat constant_series ''t'' Qt_blue True ''1h'' = Some chart \<and>
      drop 2 (series chart) = [] \<and> length (series chart) = 2)"
proof -
  have pos: "dgreater (stddev_of (map py two_samples)) (Finite 0)"
    by (simp add: two_samples_stddev dgreater_def)
  have a: "\<exists>chart. plotLineStat two_samples ''t'' Qt_blue True ''1h'' = Some chart \<and>
      map series_name (drop 2 (series chart)) = [name_upper, name_lower]"
  proof -
    from deviation_band_iff [OF two_samples_casts, of "''t''" Qt_blue True "''1h''"]
    obtain chart where "plotLineStat two_samples ''t'' Qt_blue True ''1h'' = Some chart"
      and "map series_name (drop 2 (series chart)) = [name_upper, name_lower]
             \<longleftrightarrow> True \<and> dgreater (stddev_of (map py two_samples)) (Finite 0)"
      by auto
    with pos show ?thesis by simp
  qed
  have b: "\<exists>chart. plotLineStat two_samples ''t'' Qt_blue False ''1h'' = Some chart \<and>
      drop 2 (series chart) = []"
  proof -
    from deviation_band_iff [OF two_samples_casts, of "''t''" Qt_blue False "''1h''"]
    obtain chart where "plotLineStat two_samples ''t'' Qt_blue False ''1h'' = Some chart"
      and "drop 2 (series chart) = []
             \<longleftrightarrow> \<not> (False \<and> dgreater (stddev_of (map py two_samples)) (Finite 0))"
      by auto
    then show ?thesis by simp
  qed
  have c: "\<exists>chart. plotLineStat constant_series ''t'' Qt_blue True ''1h'' = Some chart \<and>
      drop 2 (series chart) = [] \<and> length (series chart) = 2"
  proof -
    from deviation_band_iff [OF constant_series_casts, of "''t''" Qt_blue True "''1h''"]
    obtain chart where "plotLineStat constant_series ''t'' Qt_blue True ''1h'' = Some chart"
      and "drop 2 (series chart) = []
             \<longleftrightarrow> \<not> (True \<and> dgreater (stddev_of (map py constant_series)) (Finite 0))"
      and "stddev_of (map py constant_series) = Finite 0 \<longrightarrow> length (series chart) = 2"
      by auto
    then show ?thesis by (simp add: constant_series_stddev dgreater_def)
  qed
  from a b c show ?thesis by (intro conjI)
qed

end
